theory Spec2Isabelle
  imports Complex_Main
begin

section \<open>Tensors of the deep-learning library\<close>

text \<open>
  The two tutorial notebooks call into the tensor library for a handful of operations.
  A tensor is its shape together with its entries in row-major order, which is how the
  library stores a contiguous tensor. Every operation that the library refuses with an
  exception returns the exception as a value.
\<close>

datatype error = RuntimeError | TypeError | ValueError | IndexError | AttributeError
  | ZeroDivisionError | TensorsNotCollocated | ObjectNotFound

record 'a tensor =
  shape :: "nat list"
  storage :: "'a list"

text \<open>\<^verbatim>\<open>torch.zeros(*sizes)\<close>: a tensor of the given shape filled with \<open>0.\<close>\<close>

definition zeros :: "nat list \<Rightarrow> real tensor" where
  "zeros sizes = \<lparr>shape = sizes, storage = replicate (prod_list sizes) 0\<rparr>"

text \<open>
  \<^verbatim>\<open>t.view(*sizes)\<close>: the same entries under a new shape. At most one size may be
  \<open>-1\<close>; it is inferred from the number of entries. A shape that does not account for
  every entry is refused.
\<close>

definition view :: "'a tensor \<Rightarrow> int list \<Rightarrow> error + 'a tensor" where
  "view t sizes =
     (let n = int (length (storage t));
          known = prod_list (filter (\<lambda>s. s \<noteq> - 1) sizes)
      in if list_ex (\<lambda>s. s < - 1) sizes \<or> 1 < count_list sizes (- 1) then Inl RuntimeError
         else if count_list sizes (- 1) = 1 then
           (if known = 0 \<or> n mod known \<noteq> 0 then Inl RuntimeError
            else Inr \<lparr>shape = map (\<lambda>s. nat (if s = - 1 then n div known else s)) sizes,
                      storage = storage t\<rparr>)
         else if known = n then Inr \<lparr>shape = map nat sizes, storage = storage t\<rparr>
         else Inl RuntimeError)"

text \<open>Row-major addressing: the strides of a shape, the offset of a multi-index, and all
  multi-indices of a shape in storage order.\<close>

fun strides :: "nat list \<Rightarrow> nat list" where
  "strides [] = []"
| "strides (n # ns) = prod_list ns # strides ns"

definition offset :: "nat list \<Rightarrow> nat list \<Rightarrow> nat" where
  "offset sh ix = sum_list (map2 (*) ix (strides sh))"

fun indices :: "nat list \<Rightarrow> nat list list" where
  "indices [] = [[]]"
| "indices (n # ns) = concat (map (\<lambda>i. map ((#) i) (indices ns)) [0..<n])"

text \<open>
  \<^verbatim>\<open>self.scatter(dm, index, src)\<close> with a scalar \<open>src\<close>: for every multi-index \<open>ix\<close>
  of \<open>index\<close>, the entry of \<open>self\<close> at \<open>ix\<close> with its component \<open>dm\<close> replaced by
  \<open>index[ix]\<close> becomes \<open>src\<close>. The library refuses an index tensor of another rank, one
  that is larger than \<open>self\<close> in a dimension other than \<open>dm\<close>, and an index entry outside
  \<open>0 ..< self.size(dm)\<close>.
\<close>

definition scatter :: "'a tensor \<Rightarrow> nat \<Rightarrow> int tensor \<Rightarrow> 'a \<Rightarrow> error + 'a tensor" where
  "scatter self dm index src =
     (if length (shape index) \<noteq> length (shape self) \<or> length (shape self) \<le> dm
      then Inl RuntimeError
      else if list_ex (\<lambda>d. d \<noteq> dm \<and> shape self ! d < shape index ! d)
                [0..<length (shape self)]
      then Inl RuntimeError
      else if list_ex (\<lambda>v. v < 0 \<or> int (shape self ! dm) \<le> v) (storage index)
      then Inl RuntimeError
      else Inr (self\<lparr>storage :=
             fold (\<lambda>ix st. st[offset (shape self)
                                 (ix[dm := nat (storage index ! offset (shape index) ix)]) := src])
                  (indices (shape index)) (storage self)\<rparr>))"



section \<open>Encrypted training on MNIST (Part 12 bis)\<close>

subsection \<open>One-hot encoding of the labels\<close>

text \<open>
  \<^verbatim>\<open>one_hot_of(index_tensor)\<close>, the local helper of \<^verbatim>\<open>get_private_data_loaders\<close>:
  \<^verbatim>\<open>torch.zeros(*index_tensor.shape, 10)\<close> scattered along dimension 1 with
  \<^verbatim>\<open>index_tensor.view(-1, 1)\<close> and the value 1.
\<close>

definition one_hot_of :: "int tensor \<Rightarrow> error + real tensor" where
  "one_hot_of index_tensor =
     (let onehot_tensor = zeros (shape index_tensor @ [10])
      in case view index_tensor [- 1, 1] of
           Inl e \<Rightarrow> Inl e
         | Inr idx \<Rightarrow> scatter onehot_tensor 1 idx 1)"

text \<open>The row that the docstring of \<^verbatim>\<open>one_hot_of\<close> shows for a label \<open>v\<close>: ten zeros
  with a one at position \<open>v\<close>.\<close>

definition one_hot_row :: "int \<Rightarrow> real list" where
  "one_hot_row v = (replicate 10 0)[nat v := 1]"

subsection \<open>Workers and training configuration\<close>

text \<open>A worker of the framework. Both notebooks create every worker with
  \<^verbatim>\<open>sy.VirtualWorker(hook, id=...)\<close>; the identifier is all that tells two workers apart.\<close>

datatype worker = VirtualWorker string

text \<open>Python's \<^verbatim>\<open>str\<close> of a non-negative integer, for the f-string of
  \<^verbatim>\<open>connect_to_workers\<close>.\<close>

definition digit_char :: "nat \<Rightarrow> char" where
  "digit_char d = ''0123456789'' ! d"

function str :: "nat \<Rightarrow> string" where
  "str n = (if n < 10 then [digit_char n] else str (n div 10) @ [digit_char (n mod 10)])"
  by pat_completeness auto
termination
  by (relation "measure id") auto

declare str.simps [simp del]

definition connect_to_workers :: "nat \<Rightarrow> worker list" where
  "connect_to_workers n_workers =
     map (\<lambda>i. VirtualWorker (''worker'' @ str (i + 1))) [0..<n_workers]"

definition connect_to_crypto_provider :: worker where
  "connect_to_crypto_provider = VirtualWorker ''crypto_provider''"

definition workers :: "worker list" where
  "workers = connect_to_workers 2"

definition crypto_provider :: worker where
  "crypto_provider = connect_to_crypto_provider"

text \<open>The class \<^verbatim>\<open>Arguments\<close>; the notebook's first cell sets \<^verbatim>\<open>epochs = 10\<close>.\<close>

record arguments =
  batch_size :: nat
  test_batch_size :: nat
  epochs :: nat
  lr :: real
  seed :: nat
  log_interval :: nat
  precision_fractional :: nat

definition Arguments :: "nat \<Rightarrow> arguments" where
  "Arguments epochs' =
     \<lparr>batch_size = 64, test_batch_size = 64, epochs = epochs', lr = 2 / 100, seed = 1,
      log_interval = 1, precision_fractional = 3\<rparr>"

definition args :: arguments where
  "args = Arguments 10"

definition n_train_items :: nat where
  "n_train_items = 640"

definition n_test_items :: nat where
  "n_test_items = 640"

subsection \<open>The framework's encrypted tensors\<close>

text \<open>
  The notebook reaches the framework through \<^verbatim>\<open>hook = sy.TorchHook(torch)\<close>. What the
  framework fixes and the notebook does not show is gathered in the hook: the size of the
  ring in which encoded values live, the precision that \<^verbatim>\<open>fix_precision()\<close> uses when
  none is given, and the random generator that sharing draws from (the \<open>k\<close>-th draw).
\<close>

record torch_hook =
  ring_size :: int
  default_precision :: nat
  randint :: "nat \<Rightarrow> int"

text \<open>A fixed-precision tensor: the number of fractional digits and the ring elements.\<close>

record fixed_precision =
  fp_fractional :: nat
  fp_child :: "int tensor"

definition truncate :: "real \<Rightarrow> int" where
  "truncate x = (if 0 \<le> x then \<lfloor>x\<rfloor> else \<lceil>x\<rceil>)"

text \<open>
  Modelled from the spec: \<^verbatim>\<open>tensor.fix_precision(precision_fractional=p)\<close> is the
  framework's, whose code the notebooks only call. The spec: "Fixed-precision encoding:
  Representing real-valued numbers as integers in a finite field/ring so that MPC protocols
  (which operate on integers) can approximate real arithmetic." Every entry is scaled by
  \<open>10 ^ p\<close>, cut to an integer and reduced into the ring.
\<close>

definition fix_precision :: "torch_hook \<Rightarrow> nat \<Rightarrow> real tensor \<Rightarrow> fixed_precision" where
  "fix_precision hk p t =
     \<lparr>fp_fractional = p,
      fp_child = \<lparr>shape = shape t,
                  storage = map (\<lambda>x. truncate (x * 10 ^ p) mod ring_size hk) (storage t)\<rparr>\<rparr>"

text \<open>
  A secret-shared tensor as the local worker holds it: for each holder the share that
  this holder keeps, the crypto provider named at sharing time, the precision of the
  encoding underneath and the autograd flag.
\<close>

record shared =
  sh_requires_grad :: bool
  sh_fractional :: nat
  sh_shares :: "(worker \<times> int tensor) list"
  sh_provider :: worker

text \<open>
  Values computed under MPC are kept as the tree of framework calls that produced them:
  the leaves are shared tensors and public fixed-precision values, the nodes are the tensor
  operations that the notebook's \<^verbatim>\<open>Net.forward\<close>, \<^verbatim>\<open>train\<close> and \<^verbatim>\<open>test\<close> call.
  \<open>Num\<close> is a Python number, \<open>DivBySize a b\<close> is \<^verbatim>\<open>a / b.shape[0]\<close>, and \<open>Grad l p\<close> is
  what \<^verbatim>\<open>l.backward()\<close> adds to \<^verbatim>\<open>p.grad\<close>.
\<close>

datatype mpc =
    Sh shared
  | Const fixed_precision
  | Num int
  | ZerosLike mpc
  | View mpc "int list"
  | Linear mpc mpc mpc
  | Relu mpc
  | Sub mpc mpc
  | Pow mpc nat
  | Sum mpc
  | Refresh mpc
  | DivBySize mpc mpc
  | ArgMax mpc nat
  | Eq mpc mpc
  | ViewAs mpc mpc
  | Add mpc mpc
  | Mul mpc mpc
  | Grad mpc mpc

text \<open>
  What reaches the local worker in the clear: a plaintext batch that a data loader
  yields in the local process, or a value that \<^verbatim>\<open>.get().float_precision()\<close>
  reconstructs.
\<close>

datatype local_value = Batch "real tensor" "int tensor" | Revealed mpc

text \<open>
  The state of the simulation: how many random numbers have been drawn, every share
  that was delivered (recipient and payload, in order), and everything the local worker
  has had in the clear.
\<close>

record mpc_world =
  draws :: nat
  sent :: "(worker \<times> int tensor) list"
  local_view :: "local_value list"

text \<open>
  Modelled from the spec: \<^verbatim>\<open>.share(*owners, crypto_provider=..., requires_grad=...)\<close>
  is the framework's, whose code the notebooks only call. The spec: "Secret sharing / MPC:
  Splitting a value into shares distributed across multiple parties such that no single
  party observes the plaintext, while certain arithmetic over the shares reconstructs
  correct plaintext results", and "Crypto provider: A trusted-but-non-data-holding party
  that supplies randomness/precomputed values". The notebook calls the scheme "private
  additive sharing": every owner but the last receives a random ring element per entry,
  the last owner receives what is left of the secret, and the shares add up to the secret
  in the ring. The crypto provider is recorded and receives nothing.
\<close>

fun generate_shares :: "int \<Rightarrow> (nat \<Rightarrow> int) \<Rightarrow> nat \<Rightarrow> int list \<Rightarrow> nat \<Rightarrow> int list list \<times> nat" where
  "generate_shares q rnd c secret 0 = ([], c)"
| "generate_shares q rnd c secret (Suc 0) = ([secret], c)"
| "generate_shares q rnd c secret (Suc (Suc n)) =
     (let r = map (\<lambda>k. rnd (c + k) mod q) [0..<length secret];
          rest = map2 (\<lambda>x y. (x - y) mod q) secret r;
          (ss, c') = generate_shares q rnd (c + length secret) rest (Suc n)
      in (r # ss, c'))"

definition share ::
  "torch_hook \<Rightarrow> fixed_precision \<Rightarrow> worker list \<Rightarrow> worker \<Rightarrow> bool \<Rightarrow> mpc_world
     \<Rightarrow> error + shared \<times> mpc_world" where
  "share hk fx owners provider rg w =
     (if owners = [] then Inl ValueError
      else
        let (ss, c) = generate_shares (ring_size hk) (randint hk) (draws w)
                        (storage (fp_child fx)) (length owners);
            parcels = zip owners (map (\<lambda>s. \<lparr>shape = shape (fp_child fx), storage = s\<rparr>) ss)
        in Inr (\<lparr>sh_requires_grad = rg, sh_fractional = fp_fractional fx,
                  sh_shares = parcels, sh_provider = provider\<rparr>,
                w\<lparr>draws := c, sent := sent w @ parcels\<rparr>))"

text \<open>What the holders' shares add up to in the ring, entry by entry: the value that
  \<^verbatim>\<open>.get()\<close> reconstructs.\<close>

fun sum_shares :: "int list list \<Rightarrow> int list" where
  "sum_shares [] = []"
| "sum_shares [x] = x"
| "sum_shares (x # xs) = map2 (+) x (sum_shares xs)"

definition reconstruct :: "int \<Rightarrow> shared \<Rightarrow> int list" where
  "reconstruct q s = map (\<lambda>v. v mod q) (sum_shares (map (storage \<circ> snd) (sh_shares s)))"

definition holders :: "shared \<Rightarrow> worker list" where
  "holders s = map fst (sh_shares s)"

subsection \<open>The private data loaders\<close>

text \<open>
  An item of \<^verbatim>\<open>datasets.MNIST(..., transform=transformation)\<close>: the transformed image
  and its label. \<^verbatim>\<open>torch.utils.data.DataLoader(dataset, batch_size=b)\<close> yields the items
  in order, \<open>b\<close> at a time (the last batch may be shorter), each batch collated into the
  stacked images and the tensor of labels. A batch size of 0 is refused, and so is a batch
  whose images differ in shape.
\<close>

type_synonym example = "real tensor \<times> int"

type_synonym batch = "real tensor \<times> int tensor"

function batches :: "nat \<Rightarrow> 'a list \<Rightarrow> 'a list list" where
  "batches b xs = (if b = 0 \<or> xs = [] then [] else take b xs # batches b (drop b xs))"
  by pat_completeness auto
termination
  by (relation "measure (\<lambda>(b, xs). length xs)") auto

declare batches.simps [simp del]

definition default_collate :: "example list \<Rightarrow> error + batch" where
  "default_collate items =
     (case items of
        [] \<Rightarrow> Inl RuntimeError
      | (img, _) # _ \<Rightarrow>
          if list_ex (\<lambda>(x, _). shape x \<noteq> shape img) items then Inl RuntimeError
          else Inr (\<lparr>shape = length items # shape img,
                     storage = concat (map (storage \<circ> fst) items)\<rparr>,
                    \<lparr>shape = [length items], storage = map snd items\<rparr>))"

fun collate_all :: "example list list \<Rightarrow> error + batch list" where
  "collate_all [] = Inr []"
| "collate_all (items # rest) =
     (case default_collate items of
        Inl e \<Rightarrow> Inl e
      | Inr b \<Rightarrow> (case collate_all rest of Inl e \<Rightarrow> Inl e | Inr bs \<Rightarrow> Inr (b # bs)))"

definition DataLoader :: "example list \<Rightarrow> nat \<Rightarrow> error + batch list" where
  "DataLoader dataset b = (if b = 0 then Inl ValueError else collate_all (batches b dataset))"

text \<open>\<^verbatim>\<open>secret_share(tensor)\<close>, the second local helper of
  \<^verbatim>\<open>get_private_data_loaders\<close>: fixed precision first, then sharing with
  \<^verbatim>\<open>requires_grad=True\<close>.\<close>

definition secret_share ::
  "torch_hook \<Rightarrow> nat \<Rightarrow> worker list \<Rightarrow> worker \<Rightarrow> real tensor \<Rightarrow> mpc_world
     \<Rightarrow> error + shared \<times> mpc_world" where
  "secret_share hk precision_fractional' workers' crypto_provider' t w =
     share hk (fix_precision hk precision_fractional' t) workers' crypto_provider' True w"

text \<open>\<^verbatim>\<open>target.float()\<close>: the labels as a real-valued tensor.\<close>

definition float :: "int tensor \<Rightarrow> real tensor" where
  "float t = \<lparr>shape = shape t, storage = map real_of_int (storage t)\<rparr>"

text \<open>
  The list comprehension that builds a private loader,
  \<^verbatim>\<open>[(secret_share(data), secret_share(conv(target))) for i, (data, target) in
  enumerate(loader) if i < limit]\<close>. The loader is run to its end in the local process: every
  batch is yielded there, and the ones that pass the test are shared, the data before the
  target.
\<close>

fun private_batches ::
  "(real tensor \<Rightarrow> mpc_world \<Rightarrow> error + shared \<times> mpc_world) \<Rightarrow> (int tensor \<Rightarrow> error + real tensor)
     \<Rightarrow> (nat \<Rightarrow> bool) \<Rightarrow> (nat \<times> batch) list \<Rightarrow> mpc_world
     \<Rightarrow> error + (shared \<times> shared) list \<times> mpc_world" where
  "private_batches sec conv keep [] w = Inr ([], w)"
| "private_batches sec conv keep ((i, (data, target)) # rest) w =
     (let w0 = w\<lparr>local_view := local_view w @ [Batch data target]\<rparr>
      in if keep i then
           (case sec data w0 of
              Inl e \<Rightarrow> Inl e
            | Inr (d, w1) \<Rightarrow>
                (case conv target of
                   Inl e \<Rightarrow> Inl e
                 | Inr t \<Rightarrow>
                     (case sec t w1 of
                        Inl e \<Rightarrow> Inl e
                      | Inr (t', w2) \<Rightarrow>
                          (case private_batches sec conv keep rest w2 of
                             Inl e \<Rightarrow> Inl e
                           | Inr (out, w3) \<Rightarrow> Inr ((d, t') # out, w3)))))
         else private_batches sec conv keep rest w0)"

text \<open>
  \<^verbatim>\<open>get_private_data_loaders(precision_fractional, workers, crypto_provider)\<close>. The two
  MNIST splits are the argument \<open>MNIST\<close> (\<open>MNIST True\<close> is the training split). The test
  \<^verbatim>\<open>i < n_train_items / args.batch_size\<close> is Python's true division.
\<close>

definition get_private_data_loaders ::
  "torch_hook \<Rightarrow> (bool \<Rightarrow> example list) \<Rightarrow> nat \<Rightarrow> worker list \<Rightarrow> worker \<Rightarrow> mpc_world
     \<Rightarrow> error + ((shared \<times> shared) list \<times> (shared \<times> shared) list) \<times> mpc_world" where
  "get_private_data_loaders hk MNIST precision_fractional' workers' crypto_provider' w =
     (let sec = secret_share hk precision_fractional' workers' crypto_provider'
      in case DataLoader (MNIST True) (batch_size args) of
           Inl e \<Rightarrow> Inl e
         | Inr train_loader \<Rightarrow>
        (case private_batches sec one_hot_of
                (\<lambda>i. real i < real n_train_items / real (batch_size args))
                (enumerate 0 train_loader) w of
           Inl e \<Rightarrow> Inl e
         | Inr (private_train_loader, w1) \<Rightarrow>
        (case DataLoader (MNIST False) (test_batch_size args) of
           Inl e \<Rightarrow> Inl e
         | Inr test_loader \<Rightarrow>
        (case private_batches sec (\<lambda>target. Inr (float target))
                (\<lambda>i. real i < real n_test_items / real (test_batch_size args))
                (enumerate 0 test_loader) w1 of
           Inl e \<Rightarrow> Inl e
         | Inr (private_test_loader, w2) \<Rightarrow>
             Inr ((private_train_loader, private_test_loader), w2)))))"

subsection \<open>The model and its sharing\<close>

text \<open>
  The class \<^verbatim>\<open>Net\<close>: three linear layers, each a weight and a bias, and the module's
  training flag. \<^verbatim>\<open>model.parameters()\<close> lists the layers' tensors in the order of
  definition, the weight of a layer before its bias.
\<close>

record 'a linear =
  weight :: 'a
  bias :: 'a

record 'a net =
  fc1 :: "'a linear"
  fc2 :: "'a linear"
  fc3 :: "'a linear"
  training :: bool

definition parameters :: "'a net \<Rightarrow> 'a list" where
  "parameters m =
     [weight (fc1 m), bias (fc1 m), weight (fc2 m), bias (fc2 m), weight (fc3 m), bias (fc3 m)]"

text \<open>A parameter of the shared model: its value and the gradient that autograd has
  accumulated for it (\<^verbatim>\<open>None\<close> before the first backward pass).\<close>

record param =
  p_data :: mpc
  p_grad :: "mpc option"

text \<open>\<^verbatim>\<open>Net.forward(x)\<close>.\<close>

definition forward :: "param net \<Rightarrow> mpc \<Rightarrow> mpc" where
  "forward self x =
     (let x1 = View x [- 1, 28 * 28];
          x2 = Relu (Linear (p_data (weight (fc1 self))) (p_data (bias (fc1 self))) x1);
          x3 = Relu (Linear (p_data (weight (fc2 self))) (p_data (bias (fc2 self))) x2);
          x4 = Linear (p_data (weight (fc3 self))) (p_data (bias (fc3 self))) x3
      in x4)"

text \<open>
  \<^verbatim>\<open>model.fix_precision()\<close> encodes every parameter with the framework's default
  precision; \<^verbatim>\<open>.share(*workers, crypto_provider=crypto_provider, requires_grad=True)\<close>
  then shares the parameters one after the other, in the order of
  \<^verbatim>\<open>model.parameters()\<close>.
\<close>

definition linear_fix_precision :: "torch_hook \<Rightarrow> real tensor linear \<Rightarrow> fixed_precision linear" where
  "linear_fix_precision hk l =
     \<lparr>weight = fix_precision hk (default_precision hk) (weight l),
      bias = fix_precision hk (default_precision hk) (bias l)\<rparr>"

definition model_fix_precision :: "torch_hook \<Rightarrow> real tensor net \<Rightarrow> fixed_precision net" where
  "model_fix_precision hk m =
     \<lparr>fc1 = linear_fix_precision hk (fc1 m), fc2 = linear_fix_precision hk (fc2 m),
      fc3 = linear_fix_precision hk (fc3 m), training = training m\<rparr>"

definition parameter_share ::
  "torch_hook \<Rightarrow> fixed_precision \<Rightarrow> worker list \<Rightarrow> worker \<Rightarrow> bool \<Rightarrow> mpc_world
     \<Rightarrow> error + param \<times> mpc_world" where
  "parameter_share hk fx owners provider rg w =
     (case share hk fx owners provider rg w of
        Inl e \<Rightarrow> Inl e
      | Inr (s, w') \<Rightarrow> Inr (\<lparr>p_data = Sh s, p_grad = None\<rparr>, w'))"

definition linear_share ::
  "torch_hook \<Rightarrow> fixed_precision linear \<Rightarrow> worker list \<Rightarrow> worker \<Rightarrow> bool \<Rightarrow> mpc_world
     \<Rightarrow> error + param linear \<times> mpc_world" where
  "linear_share hk l owners provider rg w =
     (case parameter_share hk (weight l) owners provider rg w of
        Inl e \<Rightarrow> Inl e
      | Inr (wt, w1) \<Rightarrow>
          (case parameter_share hk (bias l) owners provider rg w1 of
             Inl e \<Rightarrow> Inl e
           | Inr (b, w2) \<Rightarrow> Inr (\<lparr>weight = wt, bias = b\<rparr>, w2)))"

definition model_share ::
  "torch_hook \<Rightarrow> fixed_precision net \<Rightarrow> worker list \<Rightarrow> worker \<Rightarrow> bool \<Rightarrow> mpc_world
     \<Rightarrow> error + param net \<times> mpc_world" where
  "model_share hk m owners provider rg w =
     (case linear_share hk (fc1 m) owners provider rg w of
        Inl e \<Rightarrow> Inl e
      | Inr (l1, w1) \<Rightarrow>
     (case linear_share hk (fc2 m) owners provider rg w1 of
        Inl e \<Rightarrow> Inl e
      | Inr (l2, w2) \<Rightarrow>
     (case linear_share hk (fc3 m) owners provider rg w2 of
        Inl e \<Rightarrow> Inl e
      | Inr (l3, w3) \<Rightarrow>
          Inr (\<lparr>fc1 = l1, fc2 = l2, fc3 = l3, training = training m\<rparr>, w3))))"

subsection \<open>The optimizer\<close>

text \<open>
  \<^verbatim>\<open>optim.SGD(model.parameters(), lr=args.lr)\<close> keeps the learning rate and refers to the
  model's parameters; \<^verbatim>\<open>optimizer.fix_precision()\<close> encodes the learning rate, a public
  value, with the default precision. \<^verbatim>\<open>zero_grad\<close> resets every gradient that exists,
  \<^verbatim>\<open>loss.backward()\<close> adds the gradient of the loss to every parameter, and
  \<^verbatim>\<open>step\<close> moves every parameter that has a gradient against it.
\<close>

record 'l sgd =
  sgd_lr :: 'l

definition SGD :: "real \<Rightarrow> real sgd" where
  "SGD lr' = \<lparr>sgd_lr = lr'\<rparr>"

definition optimizer_fix_precision :: "torch_hook \<Rightarrow> real sgd \<Rightarrow> mpc sgd" where
  "optimizer_fix_precision hk opt =
     \<lparr>sgd_lr = Const (fix_precision hk (default_precision hk) \<lparr>shape = [], storage = [sgd_lr opt]\<rparr>)\<rparr>"

definition map_linear :: "('a \<Rightarrow> 'b) \<Rightarrow> 'a linear \<Rightarrow> 'b linear" where
  "map_linear f l = \<lparr>weight = f (weight l), bias = f (bias l)\<rparr>"

definition map_net :: "('a \<Rightarrow> 'b) \<Rightarrow> 'a net \<Rightarrow> 'b net" where
  "map_net f m =
     \<lparr>fc1 = map_linear f (fc1 m), fc2 = map_linear f (fc2 m), fc3 = map_linear f (fc3 m),
      training = training m\<rparr>"

definition zero_grad :: "param net \<Rightarrow> param net" where
  "zero_grad m =
     map_net (\<lambda>p. p\<lparr>p_grad := (case p_grad p of None \<Rightarrow> None
                                | Some g \<Rightarrow> Some (ZerosLike g))\<rparr>) m"

definition backward :: "mpc \<Rightarrow> param net \<Rightarrow> param net" where
  "backward loss m =
     map_net (\<lambda>p. p\<lparr>p_grad := (case p_grad p of None \<Rightarrow> Some (Grad loss (p_data p))
                                | Some g \<Rightarrow> Some (Add g (Grad loss (p_data p))))\<rparr>) m"

definition step :: "mpc sgd \<Rightarrow> param net \<Rightarrow> param net" where
  "step opt m =
     map_net (\<lambda>p. case p_grad p of None \<Rightarrow> p
                  | Some g \<Rightarrow> p\<lparr>p_data := Sub (p_data p) (Mul (sgd_lr opt) g)\<rparr>) m"

subsection \<open>Training and testing\<close>

text \<open>The loss of \<^verbatim>\<open>train\<close>:
  \<^verbatim>\<open>((output - target)**2).sum().refresh()/batch_size\<close> with
  \<^verbatim>\<open>batch_size = output.shape[0]\<close>.\<close>

definition mse_loss :: "mpc \<Rightarrow> mpc \<Rightarrow> mpc" where
  "mse_loss output target = DivBySize (Refresh (Sum (Pow (Sub output target) 2))) output"

text \<open>
  One pass of the loop of \<^verbatim>\<open>train\<close> over a batch. The timing calls and the printing
  leave no trace in the state; what the print statement shows of the loss is what
  \<^verbatim>\<open>loss.get().float_precision()\<close> brought to the local worker.
\<close>

definition train_batch ::
  "arguments \<Rightarrow> mpc sgd \<Rightarrow> nat \<times> shared \<times> shared \<Rightarrow> param net \<times> mpc_world
     \<Rightarrow> error + param net \<times> mpc_world" where
  "train_batch args' optimizer b st =
     (case (b, st) of ((batch_idx, (data, target)), (model, w)) \<Rightarrow>
        let model1 = zero_grad model;
            output = forward model1 (Sh data);
            loss = mse_loss output (Sh target);
            model2 = backward loss model1;
            model3 = step optimizer model2
        in if log_interval args' = 0 then Inl ZeroDivisionError
           else if batch_idx mod log_interval args' = 0
           then Inr (model3, w\<lparr>local_view := local_view w @ [Revealed loss]\<rparr>)
           else Inr (model3, w))"

fun train_loop ::
  "arguments \<Rightarrow> mpc sgd \<Rightarrow> (nat \<times> shared \<times> shared) list \<Rightarrow> param net \<times> mpc_world
     \<Rightarrow> error + param net \<times> mpc_world" where
  "train_loop args' optimizer [] st = Inr st"
| "train_loop args' optimizer (b # bs) st =
     (case train_batch args' optimizer b st of
        Inl e \<Rightarrow> Inl e
      | Inr st' \<Rightarrow> train_loop args' optimizer bs st')"

text \<open>\<^verbatim>\<open>train(args, model, private_train_loader, optimizer, epoch)\<close>; the epoch is only
  printed.\<close>

definition train ::
  "arguments \<Rightarrow> param net \<Rightarrow> (shared \<times> shared) list \<Rightarrow> mpc sgd \<Rightarrow> nat \<Rightarrow> mpc_world
     \<Rightarrow> error + param net \<times> mpc_world" where
  "train args' model private_train_loader optimizer epoch w =
     train_loop args' optimizer (enumerate 0 private_train_loader)
       (model\<lparr>training := True\<rparr>, w)"

text \<open>
  \<^verbatim>\<open>test(args, model, private_test_loader)\<close>: \<^verbatim>\<open>correct\<close> starts as the number 0 and
  grows by \<^verbatim>\<open>pred.eq(target.view_as(pred)).sum()\<close> per batch; after the loop
  \<^verbatim>\<open>correct.get().float_precision()\<close> brings it to the local worker. A number has no
  \<^verbatim>\<open>get\<close>: over an empty loader the call raises.
\<close>

definition test_batch :: "param net \<Rightarrow> shared \<times> shared \<Rightarrow> mpc \<Rightarrow> mpc" where
  "test_batch model b correct =
     (case b of (data, target) \<Rightarrow>
        let output = forward model (Sh data);
            pred = ArgMax output 1
        in Add correct (Sum (Eq pred (ViewAs (Sh target) pred))))"

definition test ::
  "arguments \<Rightarrow> param net \<Rightarrow> (shared \<times> shared) list \<Rightarrow> mpc_world
     \<Rightarrow> error + param net \<times> mpc_world" where
  "test args' model private_test_loader w =
     (let model1 = model\<lparr>training := False\<rparr>;
          correct = fold (test_batch model1) private_test_loader (Num 0)
      in case correct of
           Num _ \<Rightarrow> Inl AttributeError
         | _ \<Rightarrow> Inr (model1, w\<lparr>local_view := local_view w @ [Revealed correct]\<rparr>))"

text \<open>
  The cell that launches the training: the model \<^verbatim>\<open>Net()\<close> (its freshly initialised
  parameters are the argument \<open>Net\<close>) is encoded and shared, the optimizer is built and
  encoded, and every epoch trains and then tests.
\<close>

fun epochs_loop ::
  "arguments \<Rightarrow> mpc sgd \<Rightarrow> (shared \<times> shared) list \<Rightarrow> (shared \<times> shared) list \<Rightarrow> nat list
     \<Rightarrow> param net \<times> mpc_world \<Rightarrow> error + param net \<times> mpc_world" where
  "epochs_loop args' optimizer private_train_loader private_test_loader [] st = Inr st"
| "epochs_loop args' optimizer private_train_loader private_test_loader (epoch # rest) st =
     (case train args' (fst st) private_train_loader optimizer epoch (snd st) of
        Inl e \<Rightarrow> Inl e
      | Inr (model1, w1) \<Rightarrow>
          (case test args' model1 private_test_loader w1 of
             Inl e \<Rightarrow> Inl e
           | Inr st2 \<Rightarrow>
               epochs_loop args' optimizer private_train_loader private_test_loader rest st2))"

definition launch ::
  "torch_hook \<Rightarrow> real tensor net \<Rightarrow> (shared \<times> shared) list \<Rightarrow> (shared \<times> shared) list \<Rightarrow> mpc_world
     \<Rightarrow> error + param net \<times> mpc_world" where
  "launch hk Net private_train_loader private_test_loader w =
     (case model_share hk (model_fix_precision hk Net) workers crypto_provider True w of
        Inl e \<Rightarrow> Inl e
      | Inr (model, w1) \<Rightarrow>
          let optimizer = optimizer_fix_precision hk (SGD (lr args))
          in epochs_loop args optimizer private_train_loader private_test_loader
               [1..<epochs args + 1] (model, w1))"

text \<open>
  The notebook from its first cell to its last, started in a world in which nothing has
  been drawn, sent or seen: the private loaders are built with
  \<^verbatim>\<open>precision_fractional=args.precision_fractional\<close>, then the training is launched.
\<close>

definition initial_world :: mpc_world where
  "initial_world = \<lparr>draws = 0, sent = [], local_view = []\<rparr>"

definition encrypted_training ::
  "torch_hook \<Rightarrow> (bool \<Rightarrow> example list) \<Rightarrow> real tensor net \<Rightarrow> error + param net \<times> mpc_world" where
  "encrypted_training hk MNIST Net =
     (case get_private_data_loaders hk MNIST (precision_fractional args) workers crypto_provider
             initial_world of
        Inl e \<Rightarrow> Inl e
      | Inr ((private_train_loader, private_test_loader), w) \<Rightarrow>
          launch hk Net private_train_loader private_test_loader w)"

text \<open>
  The vocabulary of the properties below. \<open>encrypts hk p owners provider x s\<close>: the
  shared tensor \<open>s\<close> is a sharing among \<open>owners\<close> of the fixed-precision encoding of the
  plaintext \<open>x\<close> with \<open>p\<close> fractional digits: one share per owner, in the owners' order,
  each of the shape of \<open>x\<close>, adding up to the encoding. \<open>in_ring q s\<close>: every entry of every
  share is an integer of the ring \<open>0 ..< q\<close>.
\<close>

definition encrypts :: "torch_hook \<Rightarrow> nat \<Rightarrow> worker list \<Rightarrow> worker \<Rightarrow> real tensor \<Rightarrow> shared \<Rightarrow> bool" where
  "encrypts hk p owners provider x s \<longleftrightarrow>
     sh_fractional s = p \<and> holders s = owners \<and> sh_provider s = provider \<and>
     sh_requires_grad s \<and>
     list_all (\<lambda>(h, t). shape t = shape x \<and> length (storage t) = length (storage x)) (sh_shares s) \<and>
     reconstruct (ring_size hk) s = storage (fp_child (fix_precision hk p x))"

definition in_ring :: "int \<Rightarrow> shared \<Rightarrow> bool" where
  "in_ring q s \<longleftrightarrow> list_all (\<lambda>(h, t). list_all (\<lambda>v. 0 \<le> v \<and> v < q) (storage t)) (sh_shares s)"

text \<open>The items of MNIST after \<^verbatim>\<open>ToTensor\<close> and \<^verbatim>\<open>Normalize\<close>: images of shape
  \<open>1 \<times> 28 \<times> 28\<close> with a digit as label.\<close>

definition mnist_like :: "example list \<Rightarrow> bool" where
  "mnist_like items \<longleftrightarrow>
     list_all (\<lambda>(img, label). shape img = [1, 28, 28] \<and> length (storage img) = 784 \<and>
                              0 \<le> label \<and> label \<le> 9) items"

text \<open>What the loader yields for a chunk of items whose images share a shape:
  the stacked images and the tensor of labels.\<close>

definition stacked :: "example list \<Rightarrow> batch" where
  "stacked items =
     (\<lparr>shape = length items # shape (fst (hd items)),
       storage = concat (map (storage \<circ> fst) items)\<rparr>,
      \<lparr>shape = [length items], storage = map snd items\<rparr>)"

text \<open>\<open>private_batch hk p owners provider conv e b\<close>: the entry \<open>e\<close> of a private
  loader is the plaintext batch \<open>b\<close> shared, the target after the conversion \<open>conv\<close>.\<close>

definition private_batch ::
  "torch_hook \<Rightarrow> nat \<Rightarrow> worker list \<Rightarrow> worker \<Rightarrow> (int tensor \<Rightarrow> error + real tensor)
     \<Rightarrow> shared \<times> shared \<Rightarrow> batch \<Rightarrow> bool" where
  "private_batch hk p owners provider conv e b \<longleftrightarrow>
     encrypts hk p owners provider (fst b) (fst e) \<and>
     (case conv (snd b) of
        Inl _ \<Rightarrow> False
      | Inr t \<Rightarrow> encrypts hk p owners provider t (snd e))"

text \<open>The shares behind a parameter of the shared model.\<close>

definition param_shares :: "param \<Rightarrow> (worker \<times> int tensor) list" where
  "param_shares p = (case p_data p of Sh s \<Rightarrow> sh_shares s | _ \<Rightarrow> [])"

text \<open>\<open>shared_param hk owners provider x p\<close>: the parameter \<open>p\<close> is the plaintext parameter
  \<open>x\<close> encoded with the default precision and shared among \<open>owners\<close>, with no gradient yet.\<close>

definition shared_param :: "torch_hook \<Rightarrow> worker list \<Rightarrow> worker \<Rightarrow> real tensor \<Rightarrow> param \<Rightarrow> bool" where
  "shared_param hk owners provider x p \<longleftrightarrow>
     (case p_data p of
        Sh s \<Rightarrow> encrypts hk (default_precision hk) owners provider x s \<and> p_grad p = None
      | _ \<Rightarrow> False)"

definition param_in_ring :: "int \<Rightarrow> param \<Rightarrow> bool" where
  "param_in_ring q p = (case p_data p of Sh s \<Rightarrow> in_ring q s | _ \<Rightarrow> False)"

text \<open>
  The losses that one call of \<^verbatim>\<open>train\<close> computes, batch after batch, each under the
  model as the steps before have left it; and the count that one call of \<^verbatim>\<open>test\<close>
  accumulates.
\<close>

fun batch_losses :: "mpc sgd \<Rightarrow> param net \<Rightarrow> (shared \<times> shared) list \<Rightarrow> mpc list" where
  "batch_losses optimizer model [] = []"
| "batch_losses optimizer model (b # bs) =
     (let model1 = zero_grad model;
          loss = mse_loss (forward model1 (Sh (fst b))) (Sh (snd b))
      in loss # batch_losses optimizer (step optimizer (backward loss model1)) bs)"

definition correct_count :: "param net \<Rightarrow> (shared \<times> shared) list \<Rightarrow> mpc" where
  "correct_count model loader = fold (test_batch (model\<lparr>training := False\<rparr>)) loader (Num 0)"

text \<open>
  The two shapes of value that the notebook reconstructs: a scalar loss, the squared
  error of an output against a shared target, summed and divided by the batch size; and a
  count of correct predictions, a sum of per-batch sums of comparisons of the predictions
  with a shared target. \<open>aggregate v\<close>: the local value \<open>v\<close> is one of the two, reconstructed,
  and not a plaintext batch.
\<close>

definition is_mse_loss :: "mpc \<Rightarrow> bool" where
  "is_mse_loss x =
     (case x of
        DivBySize (Refresh (Sum (Pow (Sub output (Sh target)) n))) output' \<Rightarrow>
          n = 2 \<and> output' = output
      | _ \<Rightarrow> False)"

fun is_count :: "mpc \<Rightarrow> bool" where
  "is_count (Add c (Sum (Eq pred (ViewAs (Sh target) pred')))) =
     (pred' = pred \<and> (c = Num 0 \<or> is_count c))"
| "is_count _ = False"

fun aggregate :: "local_value \<Rightarrow> bool" where
  "aggregate (Revealed x) = (is_mse_loss x \<or> is_count x)"
| "aggregate (Batch data target) = False"

subsection \<open>Concrete inputs\<close>

text \<open>
  A hook with the ring of 64-bit integers, three fractional digits by default and a
  fixed sequence of draws; a data set of 640 blank images of MNIST's shape per split; a
  longer one, of 700 blank images for training and 650 for testing, of which a loader with
  batches of 64 yields 11 batches per split; and a data set of a single one-pixel item per
  split. The properties below are instantiated on them.
\<close>

definition example_hook :: torch_hook where
  "example_hook = \<lparr>ring_size = 2 ^ 64, default_precision = 3, randint = (\<lambda>k. int k * 7919 + 13)\<rparr>"

definition blank_image :: "real tensor" where
  "blank_image = \<lparr>shape = [1, 28, 28], storage = replicate 784 0\<rparr>"

definition blank_mnist :: "bool \<Rightarrow> example list" where
  "blank_mnist train' = replicate 640 (blank_image, 3)"

definition long_mnist :: "bool \<Rightarrow> example list" where
  "long_mnist train' = replicate (if train' then 700 else 650) (blank_image, 3)"

definition tiny_mnist :: "bool \<Rightarrow> example list" where
  "tiny_mnist train' = [(\<lparr>shape = [1], storage = [1 / 2]\<rparr>, 7)]"

definition example_net :: "real tensor net" where
  "example_net =
     \<lparr>fc1 = \<lparr>weight = \<lparr>shape = [1, 1], storage = [1 / 4]\<rparr>, bias = \<lparr>shape = [1], storage = [0]\<rparr>\<rparr>,
      fc2 = \<lparr>weight = \<lparr>shape = [1, 1], storage = [- 1 / 2]\<rparr>, bias = \<lparr>shape = [1], storage = [1]\<rparr>\<rparr>,
      fc3 = \<lparr>weight = \<lparr>shape = [1, 1], storage = [2]\<rparr>, bias = \<lparr>shape = [1], storage = [- 1]\<rparr>\<rparr>,
      training = True\<rparr>"

section \<open>Split neural network (SplitNN Introduction)\<close>

subsection \<open>Workers, remote tensors and pointers\<close>

text \<open>The two parties of the notebook, and the worker of the notebook's own process
  (\<^verbatim>\<open>hook.local_worker\<close>), to which \<^verbatim>\<open>.get()\<close> brings a tensor.\<close>

definition alice :: worker where
  "alice = VirtualWorker ''alice''"

definition bob :: worker where
  "bob = VirtualWorker ''bob''"

definition local_worker :: worker where
  "local_worker = VirtualWorker ''me''"

text \<open>
  What a tensor holds is kept as the tree of the calls that produced it: plaintext
  images and labels, the initial parameters of a model segment, and the results of the
  calls that the notebook makes on them. \<open>GradOf l t\<close> is the gradient that \<^verbatim>\<open>l.backward()\<close>
  leaves on the leaf \<open>t\<close>, \<open>GradVia a g t\<close> the one that \<^verbatim>\<open>a.backward(g)\<close> leaves on \<open>t\<close>, and
  \<open>Updated p g r\<close> the parameters \<open>p\<close> after a step of size \<open>r\<close> against \<open>g\<close>.
\<close>

datatype tv =
    Float "real tensor"
  | Long "int tensor"
  | Segment nat
  | Flat tv
  | Apply tv tv
  | Detached tv
  | NLL tv tv
  | GradOf tv tv
  | GradVia tv tv tv
  | Updated tv tv real
  | Plus tv tv
  | Zeroed tv

text \<open>
  A tensor in the object store of a worker: who holds it, what it holds, whether autograd
  tracks it, the leaves of its computation graph (the tensors on the same worker that a
  backward pass from it reaches) and the gradient accumulated on it. A pointer is what the
  local worker holds of a remote tensor: its location and its identifier there.
\<close>

record remote =
  holder :: worker
  content :: tv
  requires_grad :: bool
  leaves :: "nat list"
  grad :: "tv option"

record pointer =
  location :: worker
  id_at_location :: nat

text \<open>The framework calls of the notebook, as the log records them, and the state of the
  simulation: the object stores of all workers, the next free identifier, the log of calls
  and the log of tensors that crossed from one worker to another (from, to, what).\<close>

datatype call =
    ZeroGradCall pointer
  | ForwardCall pointer pointer
  | DetachCall pointer
  | MoveCall pointer worker
  | RequiresGradCall pointer
  | NLLLossCall pointer pointer
  | BackwardCall pointer "pointer option"
  | GradCall pointer
  | CopyCall pointer
  | StepCall pointer
  | GetCall pointer
  | SendCall worker
  | ViewCall pointer

record split_world =
  objects :: "nat \<Rightarrow> remote option"
  next_id :: nat
  calls :: "call list"
  transfers :: "(worker \<times> worker \<times> tv) list"

definition empty_world :: split_world where
  "empty_world = \<lparr>objects = (\<lambda>i. None), next_id = 0, calls = [], transfers = []\<rparr>"

text \<open>
  Modelled from the spec: the calls on pointers (\<^verbatim>\<open>send\<close>, \<^verbatim>\<open>move\<close>, \<^verbatim>\<open>get\<close>,
  \<^verbatim>\<open>detach\<close>, \<^verbatim>\<open>copy\<close>, \<^verbatim>\<open>requires_grad_\<close>, \<^verbatim>\<open>grad\<close>, \<^verbatim>\<open>backward\<close>, the forward
  pass of a sent model and the optimizer's \<^verbatim>\<open>zero_grad\<close> and \<^verbatim>\<open>step\<close>) are the framework's
  alone, whose code the notebooks only call. The spec: "SplitNN: A technique dividing one neural
  network's layers across multiple parties, each holding a contiguous segment, passing
  activations/gradients across the boundary instead of raw data", on "pre-built
  \<^verbatim>\<open>.send()\<close>, \<^verbatim>\<open>.share()\<close>, \<^verbatim>\<open>.backward()\<close> operations". A call on a pointer runs where
  the tensor is and leaves its result there; a call on two pointers needs both tensors on one
  worker; only \<^verbatim>\<open>send\<close>, \<^verbatim>\<open>move\<close> and \<^verbatim>\<open>get\<close> carry a tensor from one worker to another,
  and they carry the tensor they are called on and nothing else.
\<close>

definition lookup :: "split_world \<Rightarrow> pointer \<Rightarrow> error + remote" where
  "lookup w p =
     (case objects w (id_at_location p) of
        None \<Rightarrow> Inl ObjectNotFound
      | Some obj \<Rightarrow> if holder obj = location p then Inr obj else Inl ObjectNotFound)"

definition alloc :: "remote \<Rightarrow> split_world \<Rightarrow> pointer \<times> split_world" where
  "alloc obj w =
     (\<lparr>location = holder obj, id_at_location = next_id w\<rparr>,
      w\<lparr>objects := (objects w)(next_id w := Some obj), next_id := Suc (next_id w)\<rparr>)"

definition record_call :: "call \<Rightarrow> split_world \<Rightarrow> split_world" where
  "record_call c w = w\<lparr>calls := calls w @ [c]\<rparr>"

text \<open>\<^verbatim>\<open>tensor.send(worker)\<close> and \<^verbatim>\<open>model.send(worker)\<close>: the tensor leaves the local
  worker, the pointer stays. A model's parameters are tracked leaves; data is not.\<close>

definition send :: "tv \<Rightarrow> bool \<Rightarrow> worker \<Rightarrow> split_world \<Rightarrow> pointer \<times> split_world" where
  "send c tracked dest w =
     (let w1 = record_call (SendCall dest) w;
          obj = \<lparr>holder = dest, content = c, requires_grad = tracked,
                 leaves = (if tracked then [next_id w1] else []), grad = None\<rparr>;
          (p, w2) = alloc obj w1
      in (p, w2\<lparr>transfers := transfers w2 @ [(local_worker, dest, c)]\<rparr>))"

text \<open>\<^verbatim>\<open>pointer.move(worker)\<close>: the tensor leaves its holder for the new worker; what
  arrives is a fresh leaf without graph or gradient.\<close>

definition move :: "pointer \<Rightarrow> worker \<Rightarrow> split_world \<Rightarrow> error + pointer \<times> split_world" where
  "move p dest w =
     (let w1 = record_call (MoveCall p dest) w
      in case lookup w1 p of
           Inl e \<Rightarrow> Inl e
         | Inr obj \<Rightarrow>
             let w2 = w1\<lparr>objects := (objects w1)(id_at_location p := None)\<rparr>;
                 (q, w3) = alloc \<lparr>holder = dest, content = content obj,
                                  requires_grad = requires_grad obj, leaves = [], grad = None\<rparr> w2
             in Inr (q, w3\<lparr>transfers := transfers w3 @ [(location p, dest, content obj)]\<rparr>))"

text \<open>\<^verbatim>\<open>pointer.get()\<close>: the tensor leaves its holder for the local worker.\<close>

definition get :: "pointer \<Rightarrow> split_world \<Rightarrow> error + tv \<times> split_world" where
  "get p w =
     (let w1 = record_call (GetCall p) w
      in case lookup w1 p of
           Inl e \<Rightarrow> Inl e
         | Inr obj \<Rightarrow>
             Inr (content obj,
                  w1\<lparr>objects := (objects w1)(id_at_location p := None),
                     transfers := transfers w1 @ [(location p, local_worker, content obj)]\<rparr>))"

text \<open>Calls that run where the tensor is.\<close>

definition detach :: "pointer \<Rightarrow> split_world \<Rightarrow> error + pointer \<times> split_world" where
  "detach p w =
     (let w1 = record_call (DetachCall p) w
      in case lookup w1 p of
           Inl e \<Rightarrow> Inl e
         | Inr obj \<Rightarrow>
             Inr (alloc \<lparr>holder = holder obj, content = Detached (content obj),
                         requires_grad = False, leaves = [], grad = None\<rparr> w1))"

definition copy :: "pointer \<Rightarrow> split_world \<Rightarrow> error + pointer \<times> split_world" where
  "copy p w =
     (let w1 = record_call (CopyCall p) w
      in case lookup w1 p of
           Inl e \<Rightarrow> Inl e
         | Inr obj \<Rightarrow>
             Inr (alloc \<lparr>holder = holder obj, content = content obj,
                         requires_grad = False, leaves = [], grad = None\<rparr> w1))"

definition view_flat :: "pointer \<Rightarrow> split_world \<Rightarrow> error + pointer \<times> split_world" where
  "view_flat p w =
     (let w1 = record_call (ViewCall p) w
      in case lookup w1 p of
           Inl e \<Rightarrow> Inl e
         | Inr obj \<Rightarrow>
             Inr (alloc \<lparr>holder = holder obj, content = Flat (content obj),
                         requires_grad = requires_grad obj, leaves = leaves obj, grad = None\<rparr> w1))"

definition set_requires_grad :: "pointer \<Rightarrow> split_world \<Rightarrow> error + pointer \<times> split_world" where
  "set_requires_grad p w =
     (let w1 = record_call (RequiresGradCall p) w
      in case lookup w1 p of
           Inl e \<Rightarrow> Inl e
         | Inr obj \<Rightarrow>
             Inr (p, w1\<lparr>objects := (objects w1)(id_at_location p :=
                          Some (obj\<lparr>requires_grad := True, leaves := [id_at_location p]\<rparr>))\<rparr>))"

text \<open>(\<open>set_requires_grad\<close> above is \<^verbatim>\<open>requires_grad_()\<close>: in place, on the same
  pointer.) The forward pass \<^verbatim>\<open>model(x)\<close> of a sent model segment and the loss
  \<^verbatim>\<open>nn.NLLLoss()(pred, target)\<close>: both operands on one worker, the result there.\<close>

definition remote_forward :: "pointer \<Rightarrow> pointer \<Rightarrow> split_world \<Rightarrow> error + pointer \<times> split_world" where
  "remote_forward m x w =
     (let w1 = record_call (ForwardCall m x) w
      in case lookup w1 m of
           Inl e \<Rightarrow> Inl e
         | Inr pm \<Rightarrow>
        (case lookup w1 x of
           Inl e \<Rightarrow> Inl e
         | Inr px \<Rightarrow>
             if location m \<noteq> location x then Inl TensorsNotCollocated
             else Inr (alloc \<lparr>holder = location m, content = Apply (content pm) (content px),
                              requires_grad = True, leaves = leaves pm @ leaves px,
                              grad = None\<rparr> w1)))"

definition nll_loss :: "pointer \<Rightarrow> pointer \<Rightarrow> split_world \<Rightarrow> error + pointer \<times> split_world" where
  "nll_loss pred target w =
     (let w1 = record_call (NLLLossCall pred target) w
      in case lookup w1 pred of
           Inl e \<Rightarrow> Inl e
         | Inr pp \<Rightarrow>
        (case lookup w1 target of
           Inl e \<Rightarrow> Inl e
         | Inr pt \<Rightarrow>
             if location pred \<noteq> location target then Inl TensorsNotCollocated
             else Inr (alloc \<lparr>holder = location pred, content = NLL (content pp) (content pt),
                              requires_grad = True, leaves = leaves pp @ leaves pt,
                              grad = None\<rparr> w1)))"

text \<open>
  \<^verbatim>\<open>t.backward()\<close> and \<^verbatim>\<open>t.backward(g)\<close>: every leaf of the graph of \<open>t\<close> accumulates its
  gradient. \<^verbatim>\<open>t.grad\<close> hands out a pointer to the gradient of \<open>t\<close>; when there is none it
  is \<^verbatim>\<open>None\<close>, and the call that follows on it raises.
\<close>

definition accumulate :: "tv \<Rightarrow> remote \<Rightarrow> remote" where
  "accumulate g obj =
     obj\<lparr>grad := Some (case grad obj of None \<Rightarrow> g | Some g0 \<Rightarrow> Plus g0 g)\<rparr>"

definition leaf_gradient :: "(tv \<Rightarrow> tv) \<Rightarrow> nat \<Rightarrow> split_world \<Rightarrow> split_world" where
  "leaf_gradient g i w =
     (case objects w i of
        None \<Rightarrow> w
      | Some obj \<Rightarrow> w\<lparr>objects := (objects w)(i := Some (accumulate (g (content obj)) obj))\<rparr>)"

definition backward_from :: "pointer \<Rightarrow> pointer option \<Rightarrow> split_world \<Rightarrow> error + split_world" where
  "backward_from p upstream w =
     (let w1 = record_call (BackwardCall p upstream) w
      in case lookup w1 p of
           Inl e \<Rightarrow> Inl e
         | Inr obj \<Rightarrow>
             (case upstream of
                None \<Rightarrow> Inr (fold (leaf_gradient (GradOf (content obj))) (leaves obj) w1)
              | Some u \<Rightarrow>
                  (case lookup w1 u of
                     Inl e \<Rightarrow> Inl e
                   | Inr g \<Rightarrow>
                       if location p \<noteq> location u then Inl TensorsNotCollocated
                       else Inr (fold (leaf_gradient (GradVia (content obj) (content g)))
                                   (leaves obj) w1))))"

definition grad_of :: "pointer \<Rightarrow> split_world \<Rightarrow> error + pointer \<times> split_world" where
  "grad_of p w =
     (let w1 = record_call (GradCall p) w
      in case lookup w1 p of
           Inl e \<Rightarrow> Inl e
         | Inr obj \<Rightarrow>
             (case grad obj of
                None \<Rightarrow> Inl AttributeError
              | Some g \<Rightarrow>
                  Inr (alloc \<lparr>holder = holder obj, content = g, requires_grad = False,
                              leaves = [], grad = None\<rparr> w1)))"

text \<open>An optimizer \<^verbatim>\<open>optim.SGD(model.parameters(), lr=0.03)\<close> refers to the parameters of
  its segment. \<^verbatim>\<open>zero_grad\<close> resets a gradient that exists; \<^verbatim>\<open>step\<close> moves the
  parameters against their gradient, where they are.\<close>

record optimizer =
  opt_params :: pointer
  opt_lr :: real

definition opt_zero_grad :: "optimizer \<Rightarrow> split_world \<Rightarrow> error + split_world" where
  "opt_zero_grad opt w =
     (let w1 = record_call (ZeroGradCall (opt_params opt)) w
      in case lookup w1 (opt_params opt) of
           Inl e \<Rightarrow> Inl e
         | Inr obj \<Rightarrow>
             Inr (w1\<lparr>objects := (objects w1)(id_at_location (opt_params opt) :=
                        Some (obj\<lparr>grad := map_option Zeroed (grad obj)\<rparr>))\<rparr>))"

definition opt_step :: "optimizer \<Rightarrow> split_world \<Rightarrow> error + split_world" where
  "opt_step opt w =
     (let w1 = record_call (StepCall (opt_params opt)) w
      in case lookup w1 (opt_params opt) of
           Inl e \<Rightarrow> Inl e
         | Inr obj \<Rightarrow>
             (case grad obj of
                None \<Rightarrow> Inr w1
              | Some g \<Rightarrow>
                  Inr (w1\<lparr>objects := (objects w1)(id_at_location (opt_params opt) :=
                             Some (obj\<lparr>content := Updated (content obj) g (opt_lr opt)\<rparr>))\<rparr>)))"

fun for_each :: "('a \<Rightarrow> split_world \<Rightarrow> error + split_world) \<Rightarrow> 'a list \<Rightarrow> split_world \<Rightarrow> error + split_world" where
  "for_each f [] w = Inr w"
| "for_each f (x # xs) w = (case f x w of Inl e \<Rightarrow> Inl e | Inr w' \<Rightarrow> for_each f xs w')"

text \<open>Sequencing: the first exception ends the run.\<close>

definition and_then :: "error + 'a \<Rightarrow> ('a \<Rightarrow> error + 'b) \<Rightarrow> error + 'b" where
  "and_then m f = (case m of Inl e \<Rightarrow> Inl e | Inr x \<Rightarrow> f x)"

text \<open>Python's \<^verbatim>\<open>models[i]\<close>.\<close>

definition item :: "'a list \<Rightarrow> nat \<Rightarrow> error + 'a" where
  "item xs i = (if i < length xs then Inr (xs ! i) else Inl IndexError)"

subsection \<open>The notebook\<close>

text \<open>
  The cell that builds the two model segments, one optimizer per segment and the two
  workers, and sends each segment to its location: the bottom segment to alice, the top one
  to bob. A segment is the pointer to its parameters.
\<close>

definition model_locations :: "worker list" where
  "model_locations = [alice, bob]"

fun send_models :: "(tv \<times> worker) list \<Rightarrow> split_world \<Rightarrow> pointer list \<times> split_world" where
  "send_models [] w = ([], w)"
| "send_models ((model, location') # rest) w =
     (let (p, w1) = send model True location' w;
          (ps, w2) = send_models rest w1
      in (p # ps, w2))"

definition initial_setup :: "pointer list \<times> optimizer list \<times> split_world" where
  "initial_setup =
     (let (models, w) = send_models (zip [Segment 0, Segment 1] model_locations) empty_world;
          optimizers = map (\<lambda>model. \<lparr>opt_params = model, opt_lr = 3 / 100\<rparr>) models
      in (models, optimizers, w))"

text \<open>\<^verbatim>\<open>train(x, target, models, optimizers)\<close>, step by step as the notebook numbers
  them.\<close>

definition split_train ::
  "pointer \<Rightarrow> pointer \<Rightarrow> pointer list \<Rightarrow> optimizer list \<Rightarrow> split_world \<Rightarrow> error + tv \<times> split_world" where
  "split_train x target models optimizers w =
     and_then (for_each opt_zero_grad optimizers w) (\<lambda>w1.
     and_then (item models 0) (\<lambda>model0.
     and_then (remote_forward model0 x w1) (\<lambda>(a, w2).
     and_then (detach a w2) (\<lambda>(a1, w3).
     and_then (item models 1) (\<lambda>model1.
     and_then (move a1 (location model1) w3) (\<lambda>(a2, w4).
     and_then (set_requires_grad a2 w4) (\<lambda>(remote_a, w5).
     and_then (remote_forward model1 remote_a w5) (\<lambda>(pred, w6).
     and_then (nll_loss pred target w6) (\<lambda>(loss, w7).
     and_then (backward_from loss None w7) (\<lambda>w8.
     and_then (grad_of remote_a w8) (\<lambda>(g, w9).
     and_then (copy g w9) (\<lambda>(g1, w10).
     and_then (item models 0) (\<lambda>model0'.
     and_then (move g1 (location model0') w10) (\<lambda>(grad_a, w11).
     and_then (backward_from a (Some grad_a) w11) (\<lambda>w12.
     and_then (for_each opt_step optimizers w12) (\<lambda>w13.
     and_then (detach loss w13) (\<lambda>(l, w14).
     get l w14)))))))))))))))))"

text \<open>
  One pass of the inner loop of the training cell over a batch that the local data
  loader yields: the images go to alice and are flattened there, the labels go to bob, and
  \<^verbatim>\<open>train\<close> runs; the loss that comes back is added to \<^verbatim>\<open>running_loss\<close>.
\<close>

definition train_on_batch ::
  "pointer list \<Rightarrow> optimizer list \<Rightarrow> real tensor \<times> int tensor \<Rightarrow> tv list \<times> split_world
     \<Rightarrow> error + tv list \<times> split_world" where
  "train_on_batch models optimizers b st =
     (case (b, st) of ((images, labels), (running_loss, w)) \<Rightarrow>
        (case send (Float images) False alice w of (images1, w1) \<Rightarrow>
           and_then (view_flat images1 w1) (\<lambda>(images2, w2).
             (case send (Long labels) False bob w2 of (labels1, w3) \<Rightarrow>
                and_then (split_train images2 labels1 models optimizers w3) (\<lambda>(loss, w4).
                  Inr (running_loss @ [loss], w4))))))"

fun train_epoch ::
  "pointer list \<Rightarrow> optimizer list \<Rightarrow> (real tensor \<times> int tensor) list \<Rightarrow> tv list \<times> split_world
     \<Rightarrow> error + tv list \<times> split_world" where
  "train_epoch models optimizers [] st = Inr st"
| "train_epoch models optimizers (b # bs) st =
     (case train_on_batch models optimizers b st of
        Inl e \<Rightarrow> Inl e
      | Inr st' \<Rightarrow> train_epoch models optimizers bs st')"

text \<open>
  The vocabulary of the properties below. \<open>tensor_at w p obj\<close>: in the world \<open>w\<close> the pointer
  \<open>p\<close> is good, the tensor \<open>obj\<close> is the one it points to, on the worker it names.
  \<open>data_at\<close>: a tensor that was sent as data, outside every graph. \<open>segment_at\<close>: the
  parameters of a model segment, a tracked leaf. \<open>crossing\<close>: the transfers between the two
  parties, without the ones from or to the local worker.
\<close>

definition tensor_at :: "split_world \<Rightarrow> pointer \<Rightarrow> remote \<Rightarrow> bool" where
  "tensor_at w p obj \<longleftrightarrow>
     objects w (id_at_location p) = Some obj \<and> holder obj = location p \<and>
     id_at_location p < next_id w"

definition data_at :: "split_world \<Rightarrow> pointer \<Rightarrow> remote \<Rightarrow> bool" where
  "data_at w p obj \<longleftrightarrow> tensor_at w p obj \<and> leaves obj = []"

definition segment_at :: "split_world \<Rightarrow> pointer \<Rightarrow> remote \<Rightarrow> bool" where
  "segment_at w p obj \<longleftrightarrow> tensor_at w p obj \<and> leaves obj = [id_at_location p]"

definition crossing :: "(worker \<times> worker \<times> tv) list \<Rightarrow> (worker \<times> worker \<times> tv) list" where
  "crossing ts = filter (\<lambda>(src, dst, c). src \<noteq> local_worker \<and> dst \<noteq> local_worker) ts"

text \<open>The pointer that a call hands out for the \<open>k\<close>-th tensor created after the world
  \<open>w\<close>.\<close>

definition fresh :: "split_world \<Rightarrow> nat \<Rightarrow> worker \<Rightarrow> pointer" where
  "fresh w k loc = \<lparr>location = loc, id_at_location = next_id w + k\<rparr>"

text \<open>What the bottom segment makes of the input, and the loss that the top segment makes
  of the detached activation and the target.\<close>

definition activation :: "remote \<Rightarrow> remote \<Rightarrow> tv" where
  "activation o0 ox = Apply (content o0) (content ox)"

definition loss_of :: "remote \<Rightarrow> remote \<Rightarrow> remote \<Rightarrow> remote \<Rightarrow> tv" where
  "loss_of o0 o1 ox ot = NLL (Apply (content o1) (Detached (activation o0 ox))) (content ot)"

text \<open>
  \<open>in_place w models optimizers\<close>: the notebook's two segments are where the send loop has
  put them, the bottom one at alice and the top one at bob, and the optimizers refer to them.
  \<open>activation_or_gradient\<close>: a transfer between the parties that carries a detached
  activation from alice to bob or the gradient with respect to one from bob to alice.
\<close>

definition in_place :: "split_world \<Rightarrow> pointer list \<Rightarrow> optimizer list \<Rightarrow> bool" where
  "in_place w models optimizers \<longleftrightarrow>
     (case models of
        [m0, m1] \<Rightarrow>
          map opt_params optimizers = [m0, m1] \<and> location m0 = alice \<and> location m1 = bob \<and>
          id_at_location m0 \<noteq> id_at_location m1 \<and>
          (case (objects w (id_at_location m0), objects w (id_at_location m1)) of
             (Some o0, Some o1) \<Rightarrow> segment_at w m0 o0 \<and> segment_at w m1 o1
           | _ \<Rightarrow> False)
      | _ \<Rightarrow> False)"

fun activation_or_gradient :: "worker \<times> worker \<times> tv \<Rightarrow> bool" where
  "activation_or_gradient (src, dst, Detached (Apply p c)) = (src = alice \<and> dst = bob)"
| "activation_or_gradient (src, dst, GradOf l (Detached (Apply p c))) = (src = bob \<and> dst = alice)"
| "activation_or_gradient (src, dst, c) = False"

subsection \<open>A concrete world\<close>

text \<open>
  The world of the notebook at its first call of \<^verbatim>\<open>train\<close>, for a batch of one image of
  two pixels: the two segments are at alice and bob, the images have been sent to alice and
  flattened there, the labels have been sent to bob.
\<close>

definition first_images :: "real tensor" where
  "first_images = \<lparr>shape = [1, 1, 1, 2], storage = [1 / 2, 1 / 4]\<rparr>"

definition first_labels :: "int tensor" where
  "first_labels = \<lparr>shape = [1], storage = [7]\<rparr>"

definition bottom_segment :: remote where
  "bottom_segment =
     \<lparr>holder = alice, content = Segment 0, requires_grad = True, leaves = [0], grad = None\<rparr>"

definition top_segment :: remote where
  "top_segment =
     \<lparr>holder = bob, content = Segment 1, requires_grad = True, leaves = [1], grad = None\<rparr>"

definition sent_images :: remote where
  "sent_images =
     \<lparr>holder = alice, content = Float first_images, requires_grad = False, leaves = [],
      grad = None\<rparr>"

definition flat_images :: remote where
  "flat_images =
     \<lparr>holder = alice, content = Flat (Float first_images), requires_grad = False, leaves = [],
      grad = None\<rparr>"

definition sent_labels :: remote where
  "sent_labels =
     \<lparr>holder = bob, content = Long first_labels, requires_grad = False, leaves = [],
      grad = None\<rparr>"

definition first_world :: split_world where
  "first_world =
     \<lparr>objects = (\<lambda>i. None)(0 := Some bottom_segment, 1 := Some top_segment,
                   2 := Some sent_images, 3 := Some flat_images, 4 := Some sent_labels),
      next_id = 5,
      calls = [SendCall alice, SendCall bob, SendCall alice,
               ViewCall \<lparr>location = alice, id_at_location = 2\<rparr>, SendCall bob],
      transfers = [(local_worker, alice, Segment 0), (local_worker, bob, Segment 1),
                   (local_worker, alice, Float first_images),
                   (local_worker, bob, Long first_labels)]\<rparr>"

definition ptr :: "worker \<Rightarrow> nat \<Rightarrow> pointer" where
  "ptr loc i = \<lparr>location = loc, id_at_location = i\<rparr>"

definition sgd :: "pointer \<Rightarrow> optimizer" where
  "sgd p = \<lparr>opt_params = p, opt_lr = 3 / 100\<rparr>"

section \<open>Properties of the one-hot encoding\<close>


lemma indices_column: "indices [n, 1] = map (\<lambda>i. [i, 0]) [0..<n]"
  by (induction n) simp_all

lemma offset_pair: "offset [n, m] [i, j] = i * m + j"
  by (simp add: offset_def)

lemma fold_update_append:
  "\<forall>i \<in> set js. p i < length A \<Longrightarrow>
   fold (\<lambda>i st. st[p i := v]) js (A @ B) = fold (\<lambda>i st. st[p i := v]) js A @ B"
  by (induction js arbitrary: A) (simp_all add: list_update_append1)

lemma scatter_rows:
  "\<forall>v \<in> set xs. 0 \<le> v \<and> v < 10 \<Longrightarrow>
   fold (\<lambda>i st. st[i * 10 + nat (xs ! i) := (1::real)]) [0..<length xs]
        (replicate (length xs * 10) 0)
   = concat (map one_hot_row xs)"
proof (induction xs rule: rev_induct)
  case Nil
  then show ?case by simp
next
  case (snoc x xs)
  let ?n = "length xs"
  have bound: "\<forall>i \<in> set [0..<?n]. i * 10 + nat (xs ! i) < length (replicate (?n * 10) (0::real))"
  proof
    fix i assume "i \<in> set [0..<?n]"
    then have i: "i < ?n" by simp
    then have "xs ! i \<in> set xs" by simp
    with snoc.prems have "nat (xs ! i) < 10" by auto
    with i show "i * 10 + nat (xs ! i) < length (replicate (?n * 10) (0::real))" by simp
  qed
  have same: "fold (\<lambda>i st. st[i * 10 + nat ((xs @ [x]) ! i) := (1::real)]) [0..<?n] st0
            = fold (\<lambda>i st. st[i * 10 + nat (xs ! i) := 1]) [0..<?n] st0" for st0
    by (rule fold_cong) (simp_all add: nth_append)
  have split: "replicate (length (xs @ [x]) * 10) (0::real)
             = replicate (?n * 10) 0 @ replicate 10 0"
    by (simp add: replicate_add [symmetric])
  have ih: "fold (\<lambda>i st. st[i * 10 + nat (xs ! i) := (1::real)]) [0..<?n]
              (replicate (?n * 10) 0) = concat (map one_hot_row xs)"
    using snoc by simp
  have len: "length (concat (map one_hot_row xs)) = ?n * 10"
    by (induction xs) (simp_all add: one_hot_row_def)
  have "fold (\<lambda>i st. st[i * 10 + nat ((xs @ [x]) ! i) := (1::real)]) [0..<length (xs @ [x])]
          (replicate (length (xs @ [x]) * 10) 0)
        = (fold (\<lambda>i st. st[i * 10 + nat ((xs @ [x]) ! i) := (1::real)]) [0..<?n]
             (replicate (?n * 10) 0 @ replicate 10 0))[?n * 10 + nat x := 1]"
    unfolding split by simp
  also have "\<dots> = (fold (\<lambda>i st. st[i * 10 + nat (xs ! i) := (1::real)]) [0..<?n]
             (replicate (?n * 10) 0) @ replicate 10 0)[?n * 10 + nat x := 1]"
    unfolding same fold_update_append [OF bound] ..
  also have "\<dots> = (concat (map one_hot_row xs) @ replicate 10 0)[?n * 10 + nat x := 1]"
    unfolding ih ..
  also have "\<dots> = concat (map one_hot_row xs) @ one_hot_row x"
    using len by (simp add: list_update_append one_hot_row_def)
  finally show ?case by simp
qed

lemma one_hot_of_vector:
  assumes "\<forall>v \<in> set xs. 0 \<le> v \<and> v < 10"
  shows "one_hot_of \<lparr>shape = [length xs], storage = xs\<rparr>
       = Inr \<lparr>shape = [length xs, 10], storage = concat (map one_hot_row xs)\<rparr>"
proof -
  have v: "view \<lparr>shape = [length xs], storage = xs\<rparr> [- 1, 1]
         = Inr \<lparr>shape = [length xs, 1], storage = xs\<rparr>"
    by (simp add: view_def)
  have inb: "\<not> list_ex (\<lambda>v. v < 0 \<or> 10 \<le> v) xs"
    using assms by (auto simp: list_ex_iff)
  have shp: "\<not> list_ex (\<lambda>d. d \<noteq> 1 \<and> [length xs, 10] ! d < [length xs, 1] ! d) [0..<2]"
    by (simp add: list_ex_iff less_Suc_eq numeral_2_eq_2)
  show ?thesis
    using inb shp scatter_rows [OF assms]
    by (simp add: one_hot_of_def zeros_def v scatter_def indices_column fold_map comp_def
        offset_pair mult.commute)
qed











section \<open>Properties of the encrypted-training notebook\<close>

subsection \<open>Additive sharing\<close>

lemma generate_shares_length:
  "generate_shares q rnd c secret n = (ss, c') \<Longrightarrow>
   length ss = n \<and> (\<forall>s \<in> set ss. length s = length secret) \<and> c \<le> c'"
proof (induction q rnd c secret n arbitrary: ss c' rule: generate_shares.induct)
  case (1 q rnd c secret)
  then show ?case by simp
next
  case (2 q rnd c secret)
  then show ?case by auto
next
  case (3 q rnd c secret n)
  let ?r = "map (\<lambda>k. rnd (c + k) mod q) [0..<length secret]"
  let ?rest = "map2 (\<lambda>x y. (x - y) mod q) secret ?r"
  obtain ts where ts: "generate_shares q rnd (c + length secret) ?rest (Suc n) = (ts, c')"
    and ss: "ss = ?r # ts"
    using "3.prems"(1) by (auto simp: Let_def split: prod.splits)
  have "length ts = Suc n \<and> (\<forall>s \<in> set ts. length s = length ?rest) \<and> c + length secret \<le> c'"
    using "3.IH" [OF refl refl ts] .
  then show ?case using ss by simp
qed

lemma length_sum_shares:
  "ss \<noteq> [] \<Longrightarrow> \<forall>s \<in> set ss. length s = m \<Longrightarrow> length (sum_shares ss) = m"
  by (induction ss rule: sum_shares.induct) simp_all

lemma generate_shares_sum:
  "generate_shares q rnd c secret n = (ss, c') \<Longrightarrow> 0 < n \<Longrightarrow>
   map (\<lambda>v. v mod q) (sum_shares ss) = map (\<lambda>v. v mod q) secret"
proof (induction q rnd c secret n arbitrary: ss c' rule: generate_shares.induct)
  case (1 q rnd c secret)
  then show ?case by simp
next
  case (2 q rnd c secret)
  then show ?case by auto
next
  case (3 q rnd c secret n)
  let ?r = "map (\<lambda>k. rnd (c + k) mod q) [0..<length secret]"
  let ?rest = "map2 (\<lambda>x y. (x - y) mod q) secret ?r"
  obtain ts where ts: "generate_shares q rnd (c + length secret) ?rest (Suc n) = (ts, c')"
    and ss: "ss = ?r # ts"
    using "3.prems"(1) by (auto simp: Let_def split: prod.splits)
  have ih: "map (\<lambda>v. v mod q) (sum_shares ts) = map (\<lambda>v. v mod q) ?rest"
    using "3.IH" [OF refl refl ts] by simp
  from generate_shares_length [OF ts]
  have lts: "length ts = Suc n" and each: "\<forall>s \<in> set ts. length s = length ?rest" by auto
  then have ne: "ts \<noteq> []" by auto
  have lsum: "length (sum_shares ts) = length secret"
    using length_sum_shares [OF ne each] by simp
  have "sum_shares ss = map2 (+) ?r (sum_shares ts)"
    using ss ne by (cases ts) simp_all
  moreover have "map (\<lambda>v. v mod q) (map2 (+) ?r (sum_shares ts)) = map (\<lambda>v. v mod q) secret"
  proof (rule nth_equalityI)
    show "length (map (\<lambda>v. v mod q) (map2 (+) ?r (sum_shares ts))) = length (map (\<lambda>v. v mod q) secret)"
      using lsum by simp
  next
    fix k assume "k < length (map (\<lambda>v. v mod q) (map2 (+) ?r (sum_shares ts)))"
    then have k: "k < length secret" using lsum by simp
    have "sum_shares ts ! k mod q = ?rest ! k mod q"
      using ih k lsum by (metis (no_types, lifting) length_map nth_map)
    then have "sum_shares ts ! k mod q = (secret ! k - ?r ! k) mod q"
      using k by simp
    then have "(?r ! k + sum_shares ts ! k) mod q = (?r ! k + (secret ! k - ?r ! k)) mod q"
      by (metis mod_add_right_eq)
    then show "map (\<lambda>v. v mod q) (map2 (+) ?r (sum_shares ts)) ! k = map (\<lambda>v. v mod q) secret ! k"
      using k lsum by simp
  qed
  ultimately show ?case by simp
qed

lemma generate_shares_range:
  "generate_shares q rnd c secret n = (ss, c') \<Longrightarrow> 0 < q \<Longrightarrow>
   \<forall>v \<in> set secret. 0 \<le> v \<and> v < q \<Longrightarrow>
   \<forall>s \<in> set ss. \<forall>v \<in> set s. 0 \<le> v \<and> v < q"
proof (induction q rnd c secret n arbitrary: ss c' rule: generate_shares.induct)
  case (1 q rnd c secret)
  then show ?case by simp
next
  case (2 q rnd c secret)
  then show ?case by auto
next
  case (3 q rnd c secret n)
  let ?r = "map (\<lambda>k. rnd (c + k) mod q) [0..<length secret]"
  let ?rest = "map2 (\<lambda>x y. (x - y) mod q) secret ?r"
  obtain ts where ts: "generate_shares q rnd (c + length secret) ?rest (Suc n) = (ts, c')"
    and ss: "ss = ?r # ts"
    using "3.prems"(1) by (auto simp: Let_def split: prod.splits)
  have rest: "\<forall>v \<in> set ?rest. 0 \<le> v \<and> v < q"
  proof
    fix v assume "v \<in> set ?rest"
    then obtain x y where "v = (x - y) mod q" by (auto simp: set_zip)
    then show "0 \<le> v \<and> v < q" using "3.prems"(2) by simp
  qed
  have "\<forall>s \<in> set ts. \<forall>v \<in> set s. 0 \<le> v \<and> v < q"
    using "3.IH" [OF refl refl ts "3.prems"(2) rest] .
  moreover have "\<forall>v \<in> set ?r. 0 \<le> v \<and> v < q"
  proof
    fix v assume "v \<in> set ?r"
    then obtain k where "v = rnd (c + k) mod q" by auto
    then show "0 \<le> v \<and> v < q" using "3.prems"(2) by simp
  qed
  ultimately show ?case unfolding ss by (metis set_ConsD)
qed

lemma fix_precision_range:
  "0 < ring_size hk \<Longrightarrow>
   \<forall>v \<in> set (storage (fp_child (fix_precision hk p t))). 0 \<le> v \<and> v < ring_size hk"
  by (simp add: fix_precision_def)

lemma fix_precision_reduced:
  "map (\<lambda>v. v mod ring_size hk) (storage (fp_child (fix_precision hk p t)))
     = storage (fp_child (fix_precision hk p t))"
  by (simp add: fix_precision_def)

lemma share_spec:
  assumes "owners \<noteq> []"
  obtains s w' where "share hk (fix_precision hk p x) owners provider True w = Inr (s, w')"
    and "encrypts hk p owners provider x s"
    and "0 < ring_size hk \<longrightarrow> in_ring (ring_size hk) s"
    and "sent w' = sent w @ sh_shares s"
    and "local_view w' = local_view w"
proof -
  let ?fx = "fix_precision hk p x"
  let ?q = "ring_size hk"
  obtain ss c where g: "generate_shares ?q (randint hk) (draws w) (storage (fp_child ?fx))
                          (length owners) = (ss, c)"
    by (cases "generate_shares ?q (randint hk) (draws w) (storage (fp_child ?fx)) (length owners)")
  let ?parcels = "zip owners (map (\<lambda>s. \<lparr>shape = shape (fp_child ?fx), storage = s\<rparr>) ss)"
  let ?s = "\<lparr>sh_requires_grad = True, sh_fractional = fp_fractional ?fx,
             sh_shares = ?parcels, sh_provider = provider\<rparr>"
  let ?w = "w\<lparr>draws := c, sent := sent w @ ?parcels\<rparr>"
  from generate_shares_length [OF g]
  have len: "length ss = length owners"
    and each: "\<forall>s \<in> set ss. length s = length (storage (fp_child ?fx))" by auto
  have pos: "0 < length owners" using assms by simp
  have res: "share hk ?fx owners provider True w = Inr (?s, ?w)"
    using assms g by (simp add: share_def Let_def)
  have "map snd ?parcels = map (\<lambda>s. \<lparr>shape = shape (fp_child ?fx), storage = s\<rparr>) ss"
    using len by (intro map_snd_zip) simp
  then have "map storage (map snd ?parcels) = ss"
    by (simp add: comp_def)
  then have payload: "map (storage \<circ> snd) ?parcels = ss"
    by (simp only: map_map)
  have "reconstruct ?q ?s = map (\<lambda>v. v mod ?q) (sum_shares ss)"
    unfolding reconstruct_def using payload by simp
  also have "\<dots> = map (\<lambda>v. v mod ?q) (storage (fp_child ?fx))"
    using generate_shares_sum [OF g pos] .
  also have "\<dots> = storage (fp_child ?fx)"
    by (rule fix_precision_reduced)
  finally have rec: "reconstruct ?q ?s = storage (fp_child ?fx)" .
  have hold: "holders ?s = owners"
    using len by (simp add: holders_def)
  have shp: "list_all (\<lambda>(h, t). shape t = shape x \<and> length (storage t) = length (storage x)) ?parcels"
    unfolding list_all_iff
  proof
    fix e assume "e \<in> set ?parcels"
    then obtain h s where e: "e = (h, \<lparr>shape = shape (fp_child ?fx), storage = s\<rparr>)" and "s \<in> set ss"
      by (auto simp: set_zip)
    with each have "length s = length (storage (fp_child ?fx))" by blast
    then show "case e of (h, t) \<Rightarrow> shape t = shape x \<and> length (storage t) = length (storage x)"
      using e by (simp add: fix_precision_def)
  qed
  have enc: "encrypts hk p owners provider x ?s"
    unfolding encrypts_def using rec hold shp by (simp add: fix_precision_def)
  have rng: "0 < ?q \<longrightarrow> in_ring ?q ?s"
  proof
    assume q: "0 < ?q"
    have all: "\<forall>s \<in> set ss. \<forall>v \<in> set s. 0 \<le> v \<and> v < ?q"
      using generate_shares_range [OF g q fix_precision_range [OF q]] .
    show "in_ring ?q ?s"
      unfolding in_ring_def list_all_iff
    proof
      fix e assume "e \<in> set (sh_shares ?s)"
      then obtain h s where e: "e = (h, \<lparr>shape = shape (fp_child ?fx), storage = s\<rparr>)" and "s \<in> set ss"
        by (auto simp: set_zip)
      with all have "\<forall>v \<in> set s. 0 \<le> v \<and> v < ?q" by blast
      then show "case e of (h, t) \<Rightarrow> Ball (set (storage t)) (\<lambda>v. 0 \<le> v \<and> v < ?q)"
        using e by simp
    qed
  qed
  show ?thesis
    using that [OF res enc rng] by simp
qed

lemma secret_share_spec:
  assumes "owners \<noteq> []"
  obtains s w' where "secret_share hk p owners provider x w = Inr (s, w')"
    and "encrypts hk p owners provider x s"
    and "0 < ring_size hk \<longrightarrow> in_ring (ring_size hk) s"
    and "sent w' = sent w @ sh_shares s"
    and "local_view w' = local_view w"
  unfolding secret_share_def using share_spec [OF assms] by metis

subsection \<open>Batching\<close>

lemma batches_Nil [simp]: "batches b [] = []"
  by (simp add: batches.simps)

lemma batches_zero [simp]: "batches 0 xs = []"
  by (simp add: batches.simps)

lemma batches_Cons: "0 < b \<Longrightarrow> xs \<noteq> [] \<Longrightarrow> batches b xs = take b xs # batches b (drop b xs)"
  by (subst batches.simps) simp

lemma take_batches: "take k (batches b xs) = batches b (take (k * b) xs)"
proof (induction k arbitrary: xs)
  case 0
  then show ?case by simp
next
  case (Suc k)
  show ?case
  proof (cases "b = 0 \<or> xs = []")
    case True
    then show ?thesis by auto
  next
    case False
    then have b: "0 < b" and xs: "xs \<noteq> []" by auto
    have ne: "take (Suc k * b) xs \<noteq> []" using b xs by simp
    have "take (Suc k) (batches b xs) = take b xs # take k (batches b (drop b xs))"
      using batches_Cons [OF b xs] by simp
    also have "\<dots> = take b xs # batches b (take (k * b) (drop b xs))"
      using Suc.IH by simp
    also have "take (k * b) (drop b xs) = drop b (take (Suc k * b) xs)"
      by (simp add: drop_take)
    also have "take b xs = take b (take (Suc k * b) xs)"
      by simp
    finally show ?thesis
      using batches_Cons [OF b ne] by simp
  qed
qed

lemma length_batches: "0 < b \<Longrightarrow> length xs = k * b \<Longrightarrow> length (batches b xs) = k"
proof (induction k arbitrary: xs)
  case 0
  then show ?case by simp
next
  case (Suc k)
  then have xs: "xs \<noteq> []" by auto
  have "length (drop b xs) = k * b" using Suc.prems by simp
  then have "length (batches b (drop b xs)) = k" using Suc.IH Suc.prems(1) by blast
  then show ?case using batches_Cons [OF Suc.prems(1) xs] by simp
qed

lemma length_batches_ceil: "0 < b \<Longrightarrow> length (batches b xs) = (length xs + b - 1) div b"
proof (induction xs rule: length_induct)
  case (1 xs)
  show ?case
  proof (cases "xs = []")
    case True
    then show ?thesis using "1.prems" by simp
  next
    case False
    then have "length (drop b xs) < length xs" using "1.prems" by simp
    then have ih: "length (batches b (drop b xs)) = (length (drop b xs) + b - 1) div b"
      using "1.IH" "1.prems" by blast
    have "length (batches b xs) = Suc ((length xs - b + b - 1) div b)"
      using batches_Cons [OF "1.prems" False] ih by simp
    also have "\<dots> = (length xs + b - 1) div b"
    proof (cases "b \<le> length xs")
      case True
      then have "length xs + b - 1 = (length xs - b + b - 1) + b" using "1.prems" by simp
      then show ?thesis using "1.prems" by (simp only: div_add_self2)
    next
      case False
      then have "length xs - b + b - 1 < b" using "1.prems" by simp
      moreover have pos: "0 < length xs" using \<open>xs \<noteq> []\<close> by simp
      have lo: "b * 1 \<le> length xs + b - 1" using pos by arith
      have hi: "length xs + b - 1 < b * Suc 1" using False by simp
      have "(length xs + b - 1) div b = 1"
        using lo hi by (rule div_nat_eqI)
      ultimately show ?thesis by simp
    qed
    finally show ?thesis .
  qed
qed

lemma batches_full:
  "0 < b \<Longrightarrow> length xs = k * b \<Longrightarrow> \<forall>c \<in> set (batches b xs). length c = b"
proof (induction k arbitrary: xs)
  case 0
  then show ?case by simp
next
  case (Suc k)
  then have xs: "xs \<noteq> []" by auto
  have "length (drop b xs) = k * b" using Suc.prems by simp
  then have "\<forall>c \<in> set (batches b (drop b xs)). length c = b" using Suc.IH Suc.prems(1) by blast
  moreover have "length (take b xs) = b" using Suc.prems by simp
  ultimately show ?case using batches_Cons [OF Suc.prems(1) xs] by simp
qed

lemma batches_chunks:
  "c \<in> set (batches b xs) \<Longrightarrow> c \<noteq> [] \<and> set c \<subseteq> set xs"
proof (induction b xs rule: batches.induct)
  case (1 b xs)
  show ?case
  proof (cases "b = 0 \<or> xs = []")
    case True
    with "1.prems" show ?thesis by auto
  next
    case False
    then have b: "0 < b" and xs: "xs \<noteq> []" by auto
    from "1.prems" batches_Cons [OF b xs]
    consider "c = take b xs" | "c \<in> set (batches b (drop b xs))" by auto
    then show ?thesis
    proof cases
      case 1
      then show ?thesis using b xs by (auto dest: in_set_takeD)
    next
      case 2
      then have "c \<noteq> [] \<and> set c \<subseteq> set (drop b xs)" using "1.IH" False by blast
      then show ?thesis by (auto dest: in_set_dropD)
    qed
  qed
qed

lemma concat_batches: "0 < b \<Longrightarrow> concat (batches b xs) = xs"
proof (induction b xs rule: batches.induct)
  case (1 b xs)
  show ?case
  proof (cases "xs = []")
    case True
    then show ?thesis by simp
  next
    case False
    then show ?thesis using "1.IH" "1.prems" batches_Cons [OF "1.prems" False] by simp
  qed
qed

lemma default_collate_mnist:
  assumes "items \<noteq> []" and "mnist_like items"
  shows "default_collate items = Inr (stacked items)"
proof -
  obtain img l rest where it: "items = (img, l) # rest" using assms(1) by (cases items) auto
  have "\<forall>e \<in> set items. shape (fst e) = [1, 28, 28]"
    using assms(2) by (auto simp: mnist_like_def list_all_iff)
  then have "\<not> list_ex (\<lambda>(x, _). shape x \<noteq> shape img) items"
    using it by (auto simp: list_ex_iff)
  then show ?thesis
    using it by (simp add: default_collate_def stacked_def)
qed

lemma mnist_like_subset: "mnist_like xs \<Longrightarrow> set c \<subseteq> set xs \<Longrightarrow> mnist_like c"
  by (auto simp: mnist_like_def list_all_iff)

lemma collate_all_mnist:
  "\<forall>c \<in> set cs. c \<noteq> [] \<and> mnist_like c \<Longrightarrow> collate_all cs = Inr (map stacked cs)"
  by (induction cs) (simp_all add: default_collate_mnist)

lemma DataLoader_mnist:
  assumes "mnist_like ds" and "0 < b"
  shows "DataLoader ds b = Inr (map stacked (batches b ds))"
proof -
  have "\<forall>c \<in> set (batches b ds). c \<noteq> [] \<and> mnist_like c"
    using batches_chunks mnist_like_subset [OF assms(1)] by blast
  then show ?thesis
    using assms(2) by (simp add: DataLoader_def collate_all_mnist)
qed

subsection \<open>The private loaders\<close>

lemma private_batches_spec:
  assumes sec: "\<And>x w. \<exists>s w'. sec x w = Inr (s, w') \<and> G x s \<and> sent w' = sent w @ sh_shares s \<and>
                         local_view w' = local_view w"
    and conv: "\<forall>e \<in> set bs. keep (fst e) \<longrightarrow> (\<exists>r. conv (snd (snd e)) = Inr r)"
  shows "\<exists>out w'. private_batches sec conv keep bs w = Inr (out, w') \<and>
           list_all2 (\<lambda>e b. G (fst b) (fst e) \<and>
                        (case conv (snd b) of Inl _ \<Rightarrow> False | Inr t \<Rightarrow> G t (snd e)))
             out (map snd (filter (\<lambda>e. keep (fst e)) bs)) \<and>
           sent w' = sent w @ concat (map (\<lambda>e. sh_shares (fst e) @ sh_shares (snd e)) out) \<and>
           local_view w' = local_view w @ map (\<lambda>e. Batch (fst (snd e)) (snd (snd e))) bs"
  using conv
proof (induction bs arbitrary: w)
  case Nil
  then show ?case by simp
next
  case (Cons a bs)
  obtain i data target where a: "a = (i, (data, target))" by (cases a) auto
  let ?w0 = "w\<lparr>local_view := local_view w @ [Batch data target]\<rparr>"
  have rest: "\<forall>e \<in> set bs. keep (fst e) \<longrightarrow> (\<exists>r. conv (snd (snd e)) = Inr r)"
    using Cons.prems by simp
  show ?case
  proof (cases "keep i")
    case False
    obtain out w' where r: "private_batches sec conv keep bs ?w0 = Inr (out, w')"
      and l: "list_all2 (\<lambda>e b. G (fst b) (fst e) \<and>
                        (case conv (snd b) of Inl _ \<Rightarrow> False | Inr t \<Rightarrow> G t (snd e)))
             out (map snd (filter (\<lambda>e. keep (fst e)) bs))"
      and s: "sent w' = sent ?w0 @ concat (map (\<lambda>e. sh_shares (fst e) @ sh_shares (snd e)) out)"
      and v: "local_view w' = local_view ?w0 @ map (\<lambda>e. Batch (fst (snd e)) (snd (snd e))) bs"
      using Cons.IH [OF rest, of ?w0] by blast
    have "private_batches sec conv keep (a # bs) w = Inr (out, w')"
      using False r a by simp
    moreover have "map snd (filter (\<lambda>e. keep (fst e)) (a # bs)) = map snd (filter (\<lambda>e. keep (fst e)) bs)"
      using False a by simp
    ultimately show ?thesis using l s v a by simp
  next
    case True
    obtain d w1 where d: "sec data ?w0 = Inr (d, w1)" and gd: "G data d"
      and s1: "sent w1 = sent ?w0 @ sh_shares d" and v1: "local_view w1 = local_view ?w0"
      using sec [of data ?w0] by blast
    obtain t where t: "conv target = Inr t"
      using Cons.prems True a by auto
    obtain t' w2 where t': "sec t w1 = Inr (t', w2)" and gt: "G t t'"
      and s2: "sent w2 = sent w1 @ sh_shares t'" and v2: "local_view w2 = local_view w1"
      using sec [of t w1] by blast
    obtain out w' where r: "private_batches sec conv keep bs w2 = Inr (out, w')"
      and l: "list_all2 (\<lambda>e b. G (fst b) (fst e) \<and>
                        (case conv (snd b) of Inl _ \<Rightarrow> False | Inr t \<Rightarrow> G t (snd e)))
             out (map snd (filter (\<lambda>e. keep (fst e)) bs))"
      and s: "sent w' = sent w2 @ concat (map (\<lambda>e. sh_shares (fst e) @ sh_shares (snd e)) out)"
      and v: "local_view w' = local_view w2 @ map (\<lambda>e. Batch (fst (snd e)) (snd (snd e))) bs"
      using Cons.IH [OF rest, of w2] by blast
    have res: "private_batches sec conv keep (a # bs) w = Inr ((d, t') # out, w')"
      using True a d t t' r by simp
    have flt: "map snd (filter (\<lambda>e. keep (fst e)) (a # bs))
             = (data, target) # map snd (filter (\<lambda>e. keep (fst e)) bs)"
      using True a by simp
    have "list_all2 (\<lambda>e b. G (fst b) (fst e) \<and>
                        (case conv (snd b) of Inl _ \<Rightarrow> False | Inr t \<Rightarrow> G t (snd e)))
             ((d, t') # out) (map snd (filter (\<lambda>e. keep (fst e)) (a # bs)))"
      unfolding flt using l gd gt t by simp
    moreover have "sent w' = sent w @ concat (map (\<lambda>e. sh_shares (fst e) @ sh_shares (snd e)) ((d, t') # out))"
      using s s1 s2 by simp
    moreover have "local_view w' = local_view w @ map (\<lambda>e. Batch (fst (snd e)) (snd (snd e))) (a # bs)"
      using v v1 v2 a by simp
    ultimately show ?thesis using res by blast
  qed
qed

lemma filter_enumerate_less:
  "filter (\<lambda>e. fst e < n) (enumerate k xs) = enumerate k (take (n - k) xs)"
proof (induction xs arbitrary: k)
  case Nil
  then show ?case by simp
next
  case (Cons x xs)
  show ?case
  proof (cases "k < n")
    case True
    then have "n - k = Suc (n - Suc k)" by simp
    then show ?thesis using True Cons.IH [of "Suc k"] by simp
  next
    case False
    then have "filter (\<lambda>e. fst e < n) (enumerate (Suc k) xs) = []"
      using Cons.IH [of "Suc k"] by simp
    then show ?thesis using False by simp
  qed
qed

lemma map_snd_enumerate [simp]: "map snd (enumerate k xs) = xs"
  by (induction xs arbitrary: k) simp_all

lemma keep_train: "(\<lambda>e. real (fst e) < real n_train_items / real (batch_size args)) = (\<lambda>e::nat \<times> 'a. fst e < 10)"
  by (auto simp: n_train_items_def args_def Arguments_def)

lemma keep_test: "(\<lambda>e. real (fst e) < real n_test_items / real (test_batch_size args)) = (\<lambda>e::nat \<times> 'a. fst e < 10)"
  by (auto simp: n_test_items_def args_def Arguments_def)

lemma one_hot_of_stacked:
  assumes "mnist_like c"
  shows "\<exists>r. one_hot_of (snd (stacked c)) = Inr r"
proof -
  have "\<forall>v \<in> set (map snd c). 0 \<le> v \<and> v < 10"
    using assms by (auto simp: mnist_like_def list_all_iff)
  from one_hot_of_vector [OF this] show ?thesis
    by (simp add: stacked_def)
qed

lemma loader_one_hot:
  assumes "mnist_like ds"
  shows "\<forall>e \<in> set (enumerate 0 (map stacked (batches b ds))).
           keep (fst e) \<longrightarrow> (\<exists>r. one_hot_of (snd (snd e)) = Inr r)"
proof
  fix e assume "e \<in> set (enumerate 0 (map stacked (batches b ds)))"
  then have "snd e \<in> set (map stacked (batches b ds))"
    by (metis in_set_zipE enumerate_eq_zip prod.collapse)
  then obtain c where c: "c \<in> set (batches b ds)" and e: "snd e = stacked c" by auto
  from batches_chunks [OF c] have "mnist_like c"
    using mnist_like_subset [OF assms] by blast
  then show "keep (fst e) \<longrightarrow> (\<exists>r. one_hot_of (snd (snd e)) = Inr r)"
    using one_hot_of_stacked e by simp
qed

lemma get_private_data_loaders_spec:
  assumes tr: "mnist_like (MNIST True)" and te: "mnist_like (MNIST False)" and ow: "owners \<noteq> []"
  obtains private_train_loader private_test_loader w' where
    "get_private_data_loaders hk MNIST p owners provider w
       = Inr ((private_train_loader, private_test_loader), w')"
    and "list_all2 (\<lambda>e b. (encrypts hk p owners provider (fst b) (fst e) \<and>
                             (0 < ring_size hk \<longrightarrow> in_ring (ring_size hk) (fst e))) \<and>
              (case one_hot_of (snd b) of Inl _ \<Rightarrow> False
               | Inr t \<Rightarrow> encrypts hk p owners provider t (snd e) \<and>
                          (0 < ring_size hk \<longrightarrow> in_ring (ring_size hk) (snd e))))
           private_train_loader (map stacked (batches 64 (take 640 (MNIST True))))"
    and "list_all2 (\<lambda>e b. (encrypts hk p owners provider (fst b) (fst e) \<and>
                             (0 < ring_size hk \<longrightarrow> in_ring (ring_size hk) (fst e))) \<and>
              (encrypts hk p owners provider (float (snd b)) (snd e) \<and>
               (0 < ring_size hk \<longrightarrow> in_ring (ring_size hk) (snd e))))
           private_test_loader (map stacked (batches 64 (take 640 (MNIST False))))"
    and "sent w' = sent w @ concat (map (\<lambda>e. sh_shares (fst e) @ sh_shares (snd e))
                                     (private_train_loader @ private_test_loader))"
    and "local_view w' = local_view w
           @ map (\<lambda>b. Batch (fst b) (snd b))
               (map stacked (batches 64 (MNIST True)) @ map stacked (batches 64 (MNIST False)))"
proof -
  let ?G = "\<lambda>x s. encrypts hk p owners provider x s \<and> (0 < ring_size hk \<longrightarrow> in_ring (ring_size hk) s)"
  let ?sec = "secret_share hk p owners provider"
  let ?ltr = "map stacked (batches 64 (MNIST True))"
  let ?lte = "map stacked (batches 64 (MNIST False))"
  have sec: "\<exists>s w'. ?sec x w = Inr (s, w') \<and> ?G x s \<and> sent w' = sent w @ sh_shares s \<and>
                     local_view w' = local_view w" for x w
    using secret_share_spec [OF ow, of hk p provider x w] by metis
  have bs: "batch_size args = 64" "test_batch_size args = 64"
    by (simp_all add: args_def Arguments_def)
  have dtr: "DataLoader (MNIST True) (batch_size args) = Inr ?ltr"
    using DataLoader_mnist [OF tr, of 64] bs by simp
  have dte: "DataLoader (MNIST False) (test_batch_size args) = Inr ?lte"
    using DataLoader_mnist [OF te, of 64] bs by simp
  have ftr: "map snd (filter (\<lambda>e. fst e < 10) (enumerate 0 ?ltr))
           = map stacked (batches 64 (take 640 (MNIST True)))"
    by (simp add: filter_enumerate_less take_map take_batches)
  have fte: "map snd (filter (\<lambda>e. fst e < 10) (enumerate 0 ?lte))
           = map stacked (batches 64 (take 640 (MNIST False)))"
    by (simp add: filter_enumerate_less take_map take_batches)
  obtain tl1 w1 where
    r1: "private_batches ?sec one_hot_of (\<lambda>i. real i < real n_train_items / real (batch_size args))
           (enumerate 0 ?ltr) w = Inr (tl1, w1)"
    and l1: "list_all2 (\<lambda>e b. ?G (fst b) (fst e) \<and>
                        (case one_hot_of (snd b) of Inl _ \<Rightarrow> False | Inr t \<Rightarrow> ?G t (snd e)))
             tl1 (map snd (filter (\<lambda>e. real (fst e) < real n_train_items / real (batch_size args))
                   (enumerate 0 ?ltr)))"
    and s1: "sent w1 = sent w @ concat (map (\<lambda>e. sh_shares (fst e) @ sh_shares (snd e)) tl1)"
    and v1: "local_view w1 = local_view w @ map (\<lambda>e. Batch (fst (snd e)) (snd (snd e))) (enumerate 0 ?ltr)"
    using private_batches_spec [where sec = ?sec and G = ?G and conv = one_hot_of
        and keep = "\<lambda>i. real i < real n_train_items / real (batch_size args)"
        and bs = "enumerate 0 ?ltr" and w = w, OF sec loader_one_hot [OF tr]]
    by blast
  have noerr: "\<forall>e \<in> set (enumerate 0 ?lte).
      real (fst e) < real n_test_items / real (test_batch_size args) \<longrightarrow>
      (\<exists>r. (Inr (float (snd (snd e))) :: error + real tensor) = Inr r)"
    by simp
  obtain tl2 w2 where
    r2: "private_batches ?sec (\<lambda>target. Inr (float target))
           (\<lambda>i. real i < real n_test_items / real (test_batch_size args))
           (enumerate 0 ?lte) w1 = Inr (tl2, w2)"
    and l2: "list_all2 (\<lambda>e b. ?G (fst b) (fst e) \<and>
                        (case (Inr (float (snd b)) :: error + real tensor) of
                           Inl _ \<Rightarrow> False | Inr t \<Rightarrow> ?G t (snd e)))
             tl2 (map snd (filter (\<lambda>e. real (fst e) < real n_test_items / real (test_batch_size args))
                   (enumerate 0 ?lte)))"
    and s2: "sent w2 = sent w1 @ concat (map (\<lambda>e. sh_shares (fst e) @ sh_shares (snd e)) tl2)"
    and v2: "local_view w2 = local_view w1 @ map (\<lambda>e. Batch (fst (snd e)) (snd (snd e))) (enumerate 0 ?lte)"
    using private_batches_spec [where sec = ?sec and G = ?G and conv = "\<lambda>target. Inr (float target)"
        and keep = "\<lambda>i. real i < real n_test_items / real (test_batch_size args)"
        and bs = "enumerate 0 ?lte" and w = w1, OF sec noerr]
    by blast
  have res: "get_private_data_loaders hk MNIST p owners provider w = Inr ((tl1, tl2), w2)"
    unfolding get_private_data_loaders_def Let_def dtr dte by (simp add: r1 r2)
  have view_map: "map (\<lambda>e. Batch (fst (snd e)) (snd (snd e))) (enumerate 0 xs)
                = map (\<lambda>b. Batch (fst b) (snd b)) xs" for xs :: "batch list"
    by (metis (no_types, lifting) map_map map_snd_enumerate comp_def map_eq_conv)
  show ?thesis
  proof (rule that [OF res])
    show "list_all2 (\<lambda>e b. (encrypts hk p owners provider (fst b) (fst e) \<and>
                             (0 < ring_size hk \<longrightarrow> in_ring (ring_size hk) (fst e))) \<and>
              (case one_hot_of (snd b) of Inl _ \<Rightarrow> False
               | Inr t \<Rightarrow> encrypts hk p owners provider t (snd e) \<and>
                          (0 < ring_size hk \<longrightarrow> in_ring (ring_size hk) (snd e))))
           tl1 (map stacked (batches 64 (take 640 (MNIST True))))"
      using l1 unfolding keep_train ftr .
    show "list_all2 (\<lambda>e b. (encrypts hk p owners provider (fst b) (fst e) \<and>
                             (0 < ring_size hk \<longrightarrow> in_ring (ring_size hk) (fst e))) \<and>
              (encrypts hk p owners provider (float (snd b)) (snd e) \<and>
               (0 < ring_size hk \<longrightarrow> in_ring (ring_size hk) (snd e))))
           tl2 (map stacked (batches 64 (take 640 (MNIST False))))"
      using l2 unfolding keep_test fte by simp
    show "sent w2 = sent w @ concat (map (\<lambda>e. sh_shares (fst e) @ sh_shares (snd e)) (tl1 @ tl2))"
      using s1 s2 by simp
    show "local_view w2 = local_view w
           @ map (\<lambda>b. Batch (fst b) (snd b)) (?ltr @ ?lte)"
      using v1 v2 by (simp add: view_map)
  qed
qed

subsection \<open>Sharing the model, training, testing\<close>

lemma parameter_share_spec:
  assumes "owners \<noteq> []"
  obtains q w' where
    "parameter_share hk (fix_precision hk (default_precision hk) x) owners provider True w = Inr (q, w')"
    and "shared_param hk owners provider x q"
    and "0 < ring_size hk \<longrightarrow> param_in_ring (ring_size hk) q"
    and "sent w' = sent w @ param_shares q"
    and "local_view w' = local_view w"
proof -
  obtain s w' where s: "share hk (fix_precision hk (default_precision hk) x) owners provider True w
                          = Inr (s, w')"
    and e: "encrypts hk (default_precision hk) owners provider x s"
    and r: "0 < ring_size hk \<longrightarrow> in_ring (ring_size hk) s"
    and t: "sent w' = sent w @ sh_shares s" and v: "local_view w' = local_view w"
    using share_spec [OF assms] by metis
  show ?thesis
    by (rule that [of "\<lparr>p_data = Sh s, p_grad = None\<rparr>" w'])
       (use s e r t v in \<open>simp_all add: parameter_share_def shared_param_def param_in_ring_def
          param_shares_def\<close>)
qed

lemma linear_share_spec:
  assumes "owners \<noteq> []"
  obtains l' w' where
    "linear_share hk (linear_fix_precision hk l) owners provider True w = Inr (l', w')"
    and "shared_param hk owners provider (weight l) (weight l')"
    and "shared_param hk owners provider (bias l) (bias l')"
    and "0 < ring_size hk \<longrightarrow>
           param_in_ring (ring_size hk) (weight l') \<and> param_in_ring (ring_size hk) (bias l')"
    and "sent w' = sent w @ param_shares (weight l') @ param_shares (bias l')"
    and "local_view w' = local_view w"
proof -
  obtain wt w1 where a: "parameter_share hk (fix_precision hk (default_precision hk) (weight l))
                           owners provider True w = Inr (wt, w1)"
    and a1: "shared_param hk owners provider (weight l) wt"
    and a2: "0 < ring_size hk \<longrightarrow> param_in_ring (ring_size hk) wt"
    and a3: "sent w1 = sent w @ param_shares wt" and a4: "local_view w1 = local_view w"
    using parameter_share_spec [OF assms] by metis
  obtain b w2 where b: "parameter_share hk (fix_precision hk (default_precision hk) (bias l))
                           owners provider True w1 = Inr (b, w2)"
    and b1: "shared_param hk owners provider (bias l) b"
    and b2: "0 < ring_size hk \<longrightarrow> param_in_ring (ring_size hk) b"
    and b3: "sent w2 = sent w1 @ param_shares b" and b4: "local_view w2 = local_view w1"
    using parameter_share_spec [OF assms] by metis
  show ?thesis
    by (rule that [of "\<lparr>weight = wt, bias = b\<rparr>" w2])
       (use a a1 a2 a3 a4 b b1 b2 b3 b4 in \<open>simp_all add: linear_share_def linear_fix_precision_def\<close>)
qed

lemma model_share_spec:
  assumes "owners \<noteq> []"
  obtains model w' where
    "model_share hk (model_fix_precision hk Net) owners provider True w = Inr (model, w')"
    and "list_all2 (shared_param hk owners provider) (parameters Net) (parameters model)"
    and "0 < ring_size hk \<longrightarrow> list_all (param_in_ring (ring_size hk)) (parameters model)"
    and "sent w' = sent w @ concat (map param_shares (parameters model))"
    and "local_view w' = local_view w"
proof -
  obtain l1 w1 where a: "linear_share hk (linear_fix_precision hk (fc1 Net)) owners provider True w
                           = Inr (l1, w1)"
    and a1: "shared_param hk owners provider (weight (fc1 Net)) (weight l1)"
            "shared_param hk owners provider (bias (fc1 Net)) (bias l1)"
    and a2: "0 < ring_size hk \<longrightarrow>
           param_in_ring (ring_size hk) (weight l1) \<and> param_in_ring (ring_size hk) (bias l1)"
    and a3: "sent w1 = sent w @ param_shares (weight l1) @ param_shares (bias l1)"
    and a4: "local_view w1 = local_view w"
    using linear_share_spec [OF assms] by metis
  obtain l2 w2 where b: "linear_share hk (linear_fix_precision hk (fc2 Net)) owners provider True w1
                           = Inr (l2, w2)"
    and b1: "shared_param hk owners provider (weight (fc2 Net)) (weight l2)"
            "shared_param hk owners provider (bias (fc2 Net)) (bias l2)"
    and b2: "0 < ring_size hk \<longrightarrow>
           param_in_ring (ring_size hk) (weight l2) \<and> param_in_ring (ring_size hk) (bias l2)"
    and b3: "sent w2 = sent w1 @ param_shares (weight l2) @ param_shares (bias l2)"
    and b4: "local_view w2 = local_view w1"
    using linear_share_spec [OF assms] by metis
  obtain l3 w3 where c: "linear_share hk (linear_fix_precision hk (fc3 Net)) owners provider True w2
                           = Inr (l3, w3)"
    and c1: "shared_param hk owners provider (weight (fc3 Net)) (weight l3)"
            "shared_param hk owners provider (bias (fc3 Net)) (bias l3)"
    and c2: "0 < ring_size hk \<longrightarrow>
           param_in_ring (ring_size hk) (weight l3) \<and> param_in_ring (ring_size hk) (bias l3)"
    and c3: "sent w3 = sent w2 @ param_shares (weight l3) @ param_shares (bias l3)"
    and c4: "local_view w3 = local_view w2"
    using linear_share_spec [OF assms] by metis
  let ?m = "\<lparr>fc1 = l1, fc2 = l2, fc3 = l3, training = training Net\<rparr>"
  have res: "model_share hk (model_fix_precision hk Net) owners provider True w = Inr (?m, w3)"
    using a b c by (simp add: model_share_def model_fix_precision_def)
  show ?thesis
  proof (rule that [OF res])
    show "list_all2 (shared_param hk owners provider) (parameters Net) (parameters ?m)"
      using a1 b1 c1 by (simp add: parameters_def)
    show "0 < ring_size hk \<longrightarrow> list_all (param_in_ring (ring_size hk)) (parameters ?m)"
      using a2 b2 c2 by (simp add: parameters_def)
    show "sent w3 = sent w @ concat (map param_shares (parameters ?m))"
      using a3 b3 c3 by (simp add: parameters_def)
    show "local_view w3 = local_view w"
      using a4 b4 c4 by simp
  qed
qed

lemma train_loop_spec:
  assumes "log_interval args' = 1"
  shows "\<exists>model' w'. train_loop args' optimizer (enumerate k loader) (model, w) = Inr (model', w') \<and>
           sent w' = sent w \<and> draws w' = draws w \<and>
           local_view w' = local_view w @ map Revealed (batch_losses optimizer model loader)"
proof (induction loader arbitrary: k model w)
  case Nil
  then show ?case by simp
next
  case (Cons b loader)
  obtain data target where b: "b = (data, target)" by (cases b)
  let ?m1 = "zero_grad model"
  let ?loss = "mse_loss (forward ?m1 (Sh data)) (Sh target)"
  let ?m3 = "step optimizer (backward ?loss ?m1)"
  let ?w1 = "w\<lparr>local_view := local_view w @ [Revealed ?loss]\<rparr>"
  have one: "train_batch args' optimizer (k, b) (model, w) = Inr (?m3, ?w1)"
    using assms b by (simp add: train_batch_def Let_def)
  obtain model' w' where r: "train_loop args' optimizer (enumerate (Suc k) loader) (?m3, ?w1)
                               = Inr (model', w')"
    and s: "sent w' = sent ?w1" and d: "draws w' = draws ?w1"
    and v: "local_view w' = local_view ?w1 @ map Revealed (batch_losses optimizer ?m3 loader)"
    using Cons.IH [of "Suc k" ?m3 ?w1] by blast
  have "train_loop args' optimizer (enumerate k (b # loader)) (model, w) = Inr (model', w')"
    using one r by simp
  moreover have "local_view w' = local_view w @ map Revealed (batch_losses optimizer model (b # loader))"
    using v b by (simp add: Let_def)
  ultimately show ?case using s d by simp
qed

lemma train_spec:
  assumes "log_interval args' = 1"
  obtains model' w' where
    "train args' model loader optimizer epoch w = Inr (model', w')"
    and "sent w' = sent w" and "draws w' = draws w"
    and "local_view w' = local_view w
           @ map Revealed (batch_losses optimizer (model\<lparr>training := True\<rparr>) loader)"
  unfolding train_def using train_loop_spec [OF assms] by metis

lemma fold_test_batch_not_Num:
  "loader \<noteq> [] \<Longrightarrow> \<forall>n. fold (test_batch m) loader c \<noteq> Num n"
proof (induction loader arbitrary: c)
  case Nil
  then show ?case by simp
next
  case (Cons b loader)
  show ?case
  proof (cases "loader = []")
    case True
    then show ?thesis by (simp add: test_batch_def Let_def split: prod.splits)
  next
    case False
    then show ?thesis using Cons.IH by simp
  qed
qed

lemma test_spec:
  assumes "loader \<noteq> []"
  shows "test args' model loader w
           = Inr (model\<lparr>training := False\<rparr>,
                  w\<lparr>local_view := local_view w @ [Revealed (correct_count model loader)]\<rparr>)"
proof -
  have "\<forall>n. fold (test_batch (model\<lparr>training := False\<rparr>)) loader (Num 0) \<noteq> Num n"
    using fold_test_batch_not_Num [OF assms] by blast
  then show ?thesis
    by (cases "fold (test_batch (model\<lparr>training := False\<rparr>)) loader (Num 0)")
       (simp_all add: test_def correct_count_def Let_def)
qed

lemma batch_losses_are_losses: "list_all is_mse_loss (batch_losses optimizer model loader)"
  by (induction loader arbitrary: model) (simp_all add: Let_def is_mse_loss_def mse_loss_def)

lemma length_batch_losses: "length (batch_losses optimizer model loader) = length loader"
  by (induction loader arbitrary: model) (simp_all add: Let_def)

lemma fold_test_batch_is_count:
  "loader \<noteq> [] \<Longrightarrow> c = Num 0 \<or> is_count c \<Longrightarrow> is_count (fold (test_batch m) loader c)"
proof (induction loader arbitrary: c)
  case Nil
  then show ?case by simp
next
  case (Cons b loader)
  have step: "is_count (test_batch m b c)"
    using Cons.prems(2) by (cases b) (simp add: test_batch_def Let_def)
  show ?case
  proof (cases "loader = []")
    case True
    then show ?thesis using step by simp
  next
    case False
    then show ?thesis using Cons.IH [OF False, of "test_batch m b c"] step by simp
  qed
qed

lemma correct_count_is_count: "loader \<noteq> [] \<Longrightarrow> is_count (correct_count model loader)"
  unfolding correct_count_def by (rule fold_test_batch_is_count) simp_all

lemma epochs_loop_spec:
  assumes "log_interval args' = 1" and "test_loader \<noteq> []"
  shows "\<exists>model' w' revealed.
           epochs_loop args' optimizer train_loader test_loader es (model, w) = Inr (model', w') \<and>
           sent w' = sent w \<and> local_view w' = local_view w @ revealed \<and>
           list_all aggregate revealed \<and> length revealed = length es * (length train_loader + 1)"
proof (induction es arbitrary: model w)
  case Nil
  then show ?case by simp
next
  case (Cons epoch es)
  obtain m1 w1 where t: "train args' model train_loader optimizer epoch w = Inr (m1, w1)"
    and s1: "sent w1 = sent w"
    and v1: "local_view w1 = local_view w
               @ map Revealed (batch_losses optimizer (model\<lparr>training := True\<rparr>) train_loader)"
    using train_spec [OF assms(1)] by metis
  let ?r1 = "map Revealed (batch_losses optimizer (model\<lparr>training := True\<rparr>) train_loader)"
  let ?c = "Revealed (correct_count m1 test_loader)"
  let ?m2 = "m1\<lparr>training := False\<rparr>"
  let ?w2 = "w1\<lparr>local_view := local_view w1 @ [?c]\<rparr>"
  have te: "test args' m1 test_loader w1 = Inr (?m2, ?w2)"
    using test_spec [OF assms(2)] .
  obtain model' w' revealed where
    r: "epochs_loop args' optimizer train_loader test_loader es (?m2, ?w2) = Inr (model', w')"
    and s: "sent w' = sent ?w2" and v: "local_view w' = local_view ?w2 @ revealed"
    and a: "list_all aggregate revealed" and l: "length revealed = length es * (length train_loader + 1)"
    using Cons.IH [of ?m2 ?w2] by blast
  have res: "epochs_loop args' optimizer train_loader test_loader (epoch # es) (model, w) = Inr (model', w')"
    using t te r by simp
  have a1: "list_all aggregate ?r1"
    using batch_losses_are_losses [of optimizer "model\<lparr>training := True\<rparr>" train_loader]
    by (simp add: list_all_iff)
  have a2: "aggregate ?c"
    using correct_count_is_count [OF assms(2)] by simp
  have "local_view w' = local_view w @ (?r1 @ [?c] @ revealed)"
    using v v1 by simp
  moreover have "list_all aggregate (?r1 @ [?c] @ revealed)"
    using a a1 a2 by simp
  moreover have "length (?r1 @ [?c] @ revealed) = length (epoch # es) * (length train_loader + 1)"
    using l by (simp add: length_batch_losses)
  moreover have "sent w' = sent w" using s s1 by simp
  ultimately show ?case using res by blast
qed

lemma launch_spec:
  assumes "test_loader \<noteq> []"
  obtains model model' w1 w' revealed where
    "model_share hk (model_fix_precision hk Net) workers crypto_provider True w = Inr (model, w1)"
    and "launch hk Net train_loader test_loader w = Inr (model', w')"
    and "list_all2 (shared_param hk workers crypto_provider) (parameters Net) (parameters model)"
    and "sent w' = sent w @ concat (map param_shares (parameters model))"
    and "local_view w' = local_view w @ revealed"
    and "list_all aggregate revealed"
    and "length revealed = epochs args * (length train_loader + 1)"
proof -
  have ws: "workers \<noteq> []" by (simp add: workers_def connect_to_workers_def)
  have li: "log_interval args = 1" by (simp add: args_def Arguments_def)
  obtain model w1 where m: "model_share hk (model_fix_precision hk Net) workers crypto_provider True w
                              = Inr (model, w1)"
    and p: "list_all2 (shared_param hk workers crypto_provider) (parameters Net) (parameters model)"
    and s1: "sent w1 = sent w @ concat (map param_shares (parameters model))"
    and v1: "local_view w1 = local_view w"
    using model_share_spec [OF ws] by metis
  let ?opt = "optimizer_fix_precision hk (SGD (lr args))"
  obtain model' w' revealed where
    r: "epochs_loop args ?opt train_loader test_loader [1..<epochs args + 1] (model, w1) = Inr (model', w')"
    and s: "sent w' = sent w1" and v: "local_view w' = local_view w1 @ revealed"
    and a: "list_all aggregate revealed"
    and l: "length revealed = length [1..<epochs args + 1] * (length train_loader + 1)"
    using epochs_loop_spec [OF li assms] by blast
  have res: "launch hk Net train_loader test_loader w = Inr (model', w')"
    using m r by (simp add: launch_def Let_def)
  show ?thesis
    by (rule that [OF m res p _ _ a]) (use s s1 v v1 l in simp_all)
qed

lemma workers_eq: "workers = [VirtualWorker ''worker1'', VirtualWorker ''worker2'']"
  by (simp add: workers_def connect_to_workers_def numeral_2_eq_2 str.simps digit_char_def)

lemma crypto_provider_eq: "crypto_provider = VirtualWorker ''crypto_provider''"
  by (simp add: crypto_provider_def connect_to_crypto_provider_def)

lemma mnist_like_take: "mnist_like ds \<Longrightarrow> mnist_like (take n ds)"
  by (rule mnist_like_subset) (auto dest: in_set_takeD)

lemma first_batches:
  assumes "mnist_like ds" and "640 \<le> length ds"
  shows "DataLoader (take 640 ds) 64 = Inr (map stacked (batches 64 (take 640 ds)))"
    and "length (batches 64 (take 640 ds)) = 10"
    and "list_all (\<lambda>b. shape (snd b) = [64] \<and> length (storage (snd b)) = 64)
           (map stacked (batches 64 (take 640 ds)))"
    and "sum_list (map (\<lambda>b. length (storage (snd b))) (map stacked (batches 64 (take 640 ds)))) = 640"
proof -
  have len: "length (take 640 ds) = 10 * 64" using assms(2) by simp
  show "DataLoader (take 640 ds) 64 = Inr (map stacked (batches 64 (take 640 ds)))"
    using DataLoader_mnist [OF mnist_like_take [OF assms(1)], of 64 640] by simp
  show "length (batches 64 (take 640 ds)) = 10"
    using length_batches [OF _ len] by simp
  have full: "\<forall>c \<in> set (batches 64 (take 640 ds)). length c = 64"
    using batches_full [OF _ len] by simp
  then show "list_all (\<lambda>b. shape (snd b) = [64] \<and> length (storage (snd b)) = 64)
           (map stacked (batches 64 (take 640 ds)))"
    by (simp add: list_all_iff stacked_def)
  have "map (\<lambda>b. length (storage (snd b))) (map stacked (batches 64 (take 640 ds)))
      = map length (batches 64 (take 640 ds))"
    by (simp add: stacked_def comp_def)
  then have "sum_list (map (\<lambda>b. length (storage (snd b))) (map stacked (batches 64 (take 640 ds))))
      = length (concat (batches 64 (take 640 ds)))"
    by (simp only: length_concat)
  also have "\<dots> = 640"
    using len by (simp add: concat_batches)
  finally show "sum_list (map (\<lambda>b. length (storage (snd b))) (map stacked (batches 64 (take 640 ds)))) = 640" .
qed

lemma args_values:
  "batch_size args = 64" "test_batch_size args = 64" "precision_fractional args = 3"
  "log_interval args = 1" "epochs args = 10"
  by (simp_all add: args_def Arguments_def)

text \<open>
  Claim C9. \<^verbatim>\<open>get_private_data_loaders\<close> truncates both data sets: over MNIST-shaped
  splits of at least \<open>n_train_items\<close> and \<open>n_test_items\<close> items it returns the sharing,
  batch by batch, of what a data loader over the first 640 items of each split yields:
  \<open>ceil(640 / 64) = 10\<close> batches of 64 items, 640 items per loader, and nothing of the
  rest of the split.
\<close>

theorem private_loaders_truncated:
  assumes "mnist_like (MNIST True)" and "mnist_like (MNIST False)"
    and "n_train_items \<le> length (MNIST True)" and "n_test_items \<le> length (MNIST False)"
    and "workers' \<noteq> []"
  shows "\<exists>private_train_loader private_test_loader w' train_batches test_batches.
           get_private_data_loaders hk MNIST p workers' provider w
             = Inr ((private_train_loader, private_test_loader), w') \<and>
           DataLoader (take n_train_items (MNIST True)) (batch_size args) = Inr train_batches \<and>
           DataLoader (take n_test_items (MNIST False)) (test_batch_size args) = Inr test_batches \<and>
           list_all2 (private_batch hk p workers' provider one_hot_of)
             private_train_loader train_batches \<and>
           list_all2 (private_batch hk p workers' provider (\<lambda>target. Inr (float target)))
             private_test_loader test_batches \<and>
           length private_train_loader = nat \<lceil>real n_train_items / real (batch_size args)\<rceil> \<and>
           length private_test_loader = nat \<lceil>real n_test_items / real (test_batch_size args)\<rceil> \<and>
           length private_train_loader = 10 \<and> length private_test_loader = 10 \<and>
           list_all (\<lambda>b. shape (snd b) = [64]) train_batches \<and>
           list_all (\<lambda>b. shape (snd b) = [64]) test_batches \<and>
           sum_list (map (\<lambda>b. length (storage (snd b))) train_batches) = n_train_items \<and>
           sum_list (map (\<lambda>b. length (storage (snd b))) test_batches) = n_test_items"
proof -
  let ?tb = "map stacked (batches 64 (take 640 (MNIST True)))"
  let ?eb = "map stacked (batches 64 (take 640 (MNIST False)))"
  have n: "n_train_items = 640" "n_test_items = 640"
    by (simp_all add: n_train_items_def n_test_items_def)
  obtain tl el w' where
    res: "get_private_data_loaders hk MNIST p workers' provider w = Inr ((tl, el), w')"
    and l1: "list_all2 (\<lambda>e b. (encrypts hk p workers' provider (fst b) (fst e) \<and>
                             (0 < ring_size hk \<longrightarrow> in_ring (ring_size hk) (fst e))) \<and>
              (case one_hot_of (snd b) of Inl _ \<Rightarrow> False
               | Inr t \<Rightarrow> encrypts hk p workers' provider t (snd e) \<and>
                          (0 < ring_size hk \<longrightarrow> in_ring (ring_size hk) (snd e)))) tl ?tb"
    and l2: "list_all2 (\<lambda>e b. (encrypts hk p workers' provider (fst b) (fst e) \<and>
                             (0 < ring_size hk \<longrightarrow> in_ring (ring_size hk) (fst e))) \<and>
              (encrypts hk p workers' provider (float (snd b)) (snd e) \<and>
               (0 < ring_size hk \<longrightarrow> in_ring (ring_size hk) (snd e)))) el ?eb"
    by (rule get_private_data_loaders_spec [OF assms(1,2,5), of hk p provider w]) (rule that)
  have p1: "list_all2 (private_batch hk p workers' provider one_hot_of) tl ?tb"
    by (rule list_all2_mono [OF l1]) (auto simp: private_batch_def split: sum.splits)
  have p2: "list_all2 (private_batch hk p workers' provider (\<lambda>target. Inr (float target))) el ?eb"
    by (rule list_all2_mono [OF l2]) (simp add: private_batch_def)
  note f1 = first_batches [OF assms(1) assms(3) [unfolded n]]
  note f2 = first_batches [OF assms(2) assms(4) [unfolded n]]
  have len1: "length tl = 10" using list_all2_lengthD [OF p1] f1(2) by simp
  have len2: "length el = 10" using list_all2_lengthD [OF p2] f2(2) by simp
  have c: "nat \<lceil>real n_train_items / real (batch_size args)\<rceil> = 10"
          "nat \<lceil>real n_test_items / real (test_batch_size args)\<rceil> = 10"
    by (simp_all add: n args_values)
  have s1: "list_all (\<lambda>b. shape (snd b) = [64]) ?tb" "list_all (\<lambda>b. shape (snd b) = [64]) ?eb"
    using f1(3) f2(3) by (simp_all add: list_all_iff)
  show ?thesis
    apply (rule exI [of _ tl], rule exI [of _ el], rule exI [of _ w'])
    apply (rule exI [of _ ?tb], rule exI [of _ ?eb])
    apply (insert res p1 p2 len1 len2 c s1 f1(1,4) f2(1,4))
    apply (simp add: n args_values)
    done
qed

subsection \<open>The claims about the encrypted-training notebook\<close>

lemma workers_nonempty: "workers \<noteq> []"
  by (simp add: workers_eq)

lemma crypto_provider_not_worker: "crypto_provider \<notin> set workers"
  by (simp add: workers_eq crypto_provider_eq)

lemma encrypts_holders:
  "encrypts hk p owners provider x s \<Longrightarrow> holders s = owners \<and> sh_provider s = provider"
  by (simp add: encrypts_def)

lemma encrypts_shares_length:
  "encrypts hk p owners provider x s \<Longrightarrow> length (sh_shares s) = length owners"
  by (auto simp: encrypts_def holders_def dest: arg_cong [where f = length])

lemma encrypts_recipients:
  "encrypts hk p owners provider x s \<Longrightarrow> e \<in> set (sh_shares s) \<Longrightarrow> fst e \<in> set owners"
  by (auto simp: encrypts_def holders_def)

lemma private_batch_holders:
  assumes "private_batch hk p owners provider conv e b"
  shows "holders (fst e) = owners \<and> sh_provider (fst e) = provider \<and>
         holders (snd e) = owners \<and> sh_provider (snd e) = provider \<and>
         length (sh_shares (fst e) @ sh_shares (snd e)) = 2 * length owners \<and>
         fst ` set (sh_shares (fst e) @ sh_shares (snd e)) \<subseteq> set owners"
proof -
  from assms obtain t where a: "encrypts hk p owners provider (fst b) (fst e)"
    and b: "encrypts hk p owners provider t (snd e)"
    by (auto simp: private_batch_def split: sum.splits)
  show ?thesis
    using encrypts_holders [OF a] encrypts_holders [OF b]
      encrypts_shares_length [OF a] encrypts_shares_length [OF b]
      encrypts_recipients [OF a] encrypts_recipients [OF b]
    by auto
qed

lemma shared_param_holders:
  assumes "shared_param hk owners provider x q"
  shows "(case p_data q of Sh s \<Rightarrow> holders s = owners \<and> sh_provider s = provider | _ \<Rightarrow> False) \<and>
         length (param_shares q) = length owners \<and> fst ` set (param_shares q) \<subseteq> set owners"
proof -
  from assms obtain s where s: "p_data q = Sh s"
    and e: "encrypts hk (default_precision hk) owners provider x s"
    by (auto simp: shared_param_def split: mpc.splits)
  show ?thesis
    using s encrypts_holders [OF e] encrypts_shares_length [OF e] encrypts_recipients [OF e]
    by (auto simp: param_shares_def)
qed

lemma length_concat_uniform:
  "\<forall>x \<in> set xs. length (f x) = n \<Longrightarrow> length (concat (map f xs)) = length xs * n"
  by (induction xs) simp_all

lemma list_all2_left: "list_all2 (\<lambda>x y. P x) xs ys \<Longrightarrow> list_all P xs"
  by (induction rule: list_all2_induct) simp_all

lemma loaders_spec:
  assumes "mnist_like (MNIST True)" and "mnist_like (MNIST False)"
  obtains private_train_loader private_test_loader w' where
    "get_private_data_loaders hk MNIST (precision_fractional args) workers crypto_provider w
       = Inr ((private_train_loader, private_test_loader), w')"
    and "list_all2 (private_batch hk 3 workers crypto_provider one_hot_of)
           private_train_loader (map stacked (batches 64 (take 640 (MNIST True))))"
    and "list_all2 (private_batch hk 3 workers crypto_provider (\<lambda>target. Inr (float target)))
           private_test_loader (map stacked (batches 64 (take 640 (MNIST False))))"
    and "0 < ring_size hk \<longrightarrow>
           list_all (\<lambda>e. in_ring (ring_size hk) (fst e) \<and> in_ring (ring_size hk) (snd e))
             (private_train_loader @ private_test_loader)"
    and "sent w' = sent w @ concat (map (\<lambda>e. sh_shares (fst e) @ sh_shares (snd e))
                                     (private_train_loader @ private_test_loader))"
    and "local_view w' = local_view w
           @ map (\<lambda>b. Batch (fst b) (snd b))
               (map stacked (batches 64 (MNIST True)) @ map stacked (batches 64 (MNIST False)))"
proof -
  let ?tb = "map stacked (batches 64 (take 640 (MNIST True)))"
  let ?eb = "map stacked (batches 64 (take 640 (MNIST False)))"
  obtain tl el w' where
    res: "get_private_data_loaders hk MNIST 3 workers crypto_provider w = Inr ((tl, el), w')"
    and l1: "list_all2 (\<lambda>e b. (encrypts hk 3 workers crypto_provider (fst b) (fst e) \<and>
                             (0 < ring_size hk \<longrightarrow> in_ring (ring_size hk) (fst e))) \<and>
              (case one_hot_of (snd b) of Inl _ \<Rightarrow> False
               | Inr t \<Rightarrow> encrypts hk 3 workers crypto_provider t (snd e) \<and>
                          (0 < ring_size hk \<longrightarrow> in_ring (ring_size hk) (snd e)))) tl ?tb"
    and l2: "list_all2 (\<lambda>e b. (encrypts hk 3 workers crypto_provider (fst b) (fst e) \<and>
                             (0 < ring_size hk \<longrightarrow> in_ring (ring_size hk) (fst e))) \<and>
              (encrypts hk 3 workers crypto_provider (float (snd b)) (snd e) \<and>
               (0 < ring_size hk \<longrightarrow> in_ring (ring_size hk) (snd e)))) el ?eb"
    and s: "sent w' = sent w @ concat (map (\<lambda>e. sh_shares (fst e) @ sh_shares (snd e)) (tl @ el))"
    and v: "local_view w' = local_view w
           @ map (\<lambda>b. Batch (fst b) (snd b))
               (map stacked (batches 64 (MNIST True)) @ map stacked (batches 64 (MNIST False)))"
    by (rule get_private_data_loaders_spec [OF assms workers_nonempty, of hk 3 crypto_provider w])
       (rule that)
  have p1: "list_all2 (private_batch hk 3 workers crypto_provider one_hot_of) tl ?tb"
    by (rule list_all2_mono [OF l1]) (auto simp: private_batch_def split: sum.splits)
  have p2: "list_all2 (private_batch hk 3 workers crypto_provider (\<lambda>target. Inr (float target))) el ?eb"
    by (rule list_all2_mono [OF l2]) (simp add: private_batch_def)
  have r1: "0 < ring_size hk \<longrightarrow>
      list_all (\<lambda>e. in_ring (ring_size hk) (fst e) \<and> in_ring (ring_size hk) (snd e)) tl"
  proof
    assume q: "0 < ring_size hk"
    have "list_all2 (\<lambda>e b. in_ring (ring_size hk) (fst e) \<and> in_ring (ring_size hk) (snd e)) tl ?tb"
      by (rule list_all2_mono [OF l1]) (use q in \<open>auto split: sum.splits\<close>)
    then show "list_all (\<lambda>e. in_ring (ring_size hk) (fst e) \<and> in_ring (ring_size hk) (snd e)) tl"
      by (rule list_all2_left)
  qed
  have r2: "0 < ring_size hk \<longrightarrow>
      list_all (\<lambda>e. in_ring (ring_size hk) (fst e) \<and> in_ring (ring_size hk) (snd e)) el"
  proof
    assume q: "0 < ring_size hk"
    have "list_all2 (\<lambda>e b. in_ring (ring_size hk) (fst e) \<and> in_ring (ring_size hk) (snd e)) el ?eb"
      by (rule list_all2_mono [OF l2]) (use q in auto)
    then show "list_all (\<lambda>e. in_ring (ring_size hk) (fst e) \<and> in_ring (ring_size hk) (snd e)) el"
      by (rule list_all2_left)
  qed
  show ?thesis
    by (rule that [of tl el w']) (use res p1 p2 r1 r2 s v in \<open>simp_all add: args_values\<close>)
qed



lemma list_all2_right: "list_all2 (\<lambda>x y. P y) xs ys \<Longrightarrow> list_all P ys"
  by (induction rule: list_all2_induct) simp_all

lemma encrypted_training_spec:
  assumes "mnist_like (MNIST True)" and "mnist_like (MNIST False)" and "MNIST False \<noteq> []"
  obtains private_train_loader private_test_loader w1 model w2 model' w' revealed where
    "get_private_data_loaders hk MNIST (precision_fractional args) workers crypto_provider
       initial_world = Inr ((private_train_loader, private_test_loader), w1)"
    and "model_share hk (model_fix_precision hk Net) workers crypto_provider True w1
           = Inr (model, w2)"
    and "encrypted_training hk MNIST Net = Inr (model', w')"
    and "list_all2 (private_batch hk 3 workers crypto_provider one_hot_of)
           private_train_loader (map stacked (batches 64 (take 640 (MNIST True))))"
    and "list_all2 (private_batch hk 3 workers crypto_provider (\<lambda>target. Inr (float target)))
           private_test_loader (map stacked (batches 64 (take 640 (MNIST False))))"
    and "list_all2 (shared_param hk workers crypto_provider) (parameters Net) (parameters model)"
    and "sent w' = concat (map (\<lambda>e. sh_shares (fst e) @ sh_shares (snd e))
                             (private_train_loader @ private_test_loader))
                   @ concat (map param_shares (parameters model))"
    and "local_view w' = map (\<lambda>b. Batch (fst b) (snd b))
               (map stacked (batches 64 (MNIST True)) @ map stacked (batches 64 (MNIST False)))
             @ revealed"
    and "list_all aggregate revealed"
    and "length revealed = epochs args * (length private_train_loader + 1)"
proof -
  let ?tb = "map stacked (batches 64 (take 640 (MNIST True)))"
  let ?eb = "map stacked (batches 64 (take 640 (MNIST False)))"
  obtain tl el w1 where
    res: "get_private_data_loaders hk MNIST (precision_fractional args) workers crypto_provider
            initial_world = Inr ((tl, el), w1)"
    and p1: "list_all2 (private_batch hk 3 workers crypto_provider one_hot_of) tl ?tb"
    and p2: "list_all2 (private_batch hk 3 workers crypto_provider (\<lambda>target. Inr (float target))) el ?eb"
    and s1: "sent w1 = sent initial_world
               @ concat (map (\<lambda>e. sh_shares (fst e) @ sh_shares (snd e)) (tl @ el))"
    and v1: "local_view w1 = local_view initial_world
           @ map (\<lambda>b. Batch (fst b) (snd b))
               (map stacked (batches 64 (MNIST True)) @ map stacked (batches 64 (MNIST False)))"
    by (rule loaders_spec [OF assms(1,2), of hk initial_world]) (rule that)
  have "take 640 (MNIST False) \<noteq> []" using assms(3) by simp
  then have "batches 64 (take 640 (MNIST False)) \<noteq> []"
    using batches_Cons [of 64 "take 640 (MNIST False)"] by simp
  then have ne: "el \<noteq> []"
    using list_all2_lengthD [OF p2] by auto
  obtain model model' w2 w' revealed where
    m: "model_share hk (model_fix_precision hk Net) workers crypto_provider True w1 = Inr (model, w2)"
    and l: "launch hk Net tl el w1 = Inr (model', w')"
    and q: "list_all2 (shared_param hk workers crypto_provider) (parameters Net) (parameters model)"
    and s2: "sent w' = sent w1 @ concat (map param_shares (parameters model))"
    and v2: "local_view w' = local_view w1 @ revealed"
    and a: "list_all aggregate revealed"
    and n: "length revealed = epochs args * (length tl + 1)"
    by (rule launch_spec [OF ne, of hk Net w1 tl]) (rule that)
  have run: "encrypted_training hk MNIST Net = Inr (model', w')"
    using res l by (simp add: encrypted_training_def)
  show ?thesis
    by (rule that [OF res m run p1 p2 q _ _ a n])
       (use s1 s2 v1 v2 in \<open>simp_all add: initial_world_def\<close>)
qed

text \<open>
  Claim C5. The crypto provider is none of the two workers. Every tensor of the private
  loaders and every parameter of the shared model has exactly the two workers as holders
  of its shares and names the crypto provider as its provider; and over the whole notebook
  every share that is delivered goes to one of the two workers, none to the crypto provider.
\<close>

theorem crypto_provider_receives_no_share:
  assumes "mnist_like (MNIST True)" and "mnist_like (MNIST False)" and "MNIST False \<noteq> []"
  shows "crypto_provider \<notin> set workers \<and> length workers = 2 \<and>
         (\<exists>private_train_loader private_test_loader w1 model w2 model' w'.
            get_private_data_loaders hk MNIST (precision_fractional args) workers crypto_provider
              initial_world = Inr ((private_train_loader, private_test_loader), w1) \<and>
            model_share hk (model_fix_precision hk Net) workers crypto_provider True w1
              = Inr (model, w2) \<and>
            encrypted_training hk MNIST Net = Inr (model', w') \<and>
            list_all (\<lambda>e. holders (fst e) = workers \<and> sh_provider (fst e) = crypto_provider \<and>
                          holders (snd e) = workers \<and> sh_provider (snd e) = crypto_provider)
              (private_train_loader @ private_test_loader) \<and>
            list_all (\<lambda>q. case p_data q of
                             Sh s \<Rightarrow> holders s = workers \<and> sh_provider s = crypto_provider
                           | _ \<Rightarrow> False)
              (parameters model) \<and>
            sent w' = concat (map (\<lambda>e. sh_shares (fst e) @ sh_shares (snd e))
                               (private_train_loader @ private_test_loader))
                      @ concat (map param_shares (parameters model)) \<and>
            length (sent w')
              = 2 * (2 * (length private_train_loader + length private_test_loader) + 6) \<and>
            list_all (\<lambda>parcel. fst parcel \<in> set workers \<and> fst parcel \<noteq> crypto_provider) (sent w'))"
proof -
  let ?tb = "map stacked (batches 64 (take 640 (MNIST True)))"
  let ?eb = "map stacked (batches 64 (take 640 (MNIST False)))"
  obtain tl el w1 model w2 model' w' where
    res: "get_private_data_loaders hk MNIST (precision_fractional args) workers crypto_provider
            initial_world = Inr ((tl, el), w1)"
    and m: "model_share hk (model_fix_precision hk Net) workers crypto_provider True w1 = Inr (model, w2)"
    and run: "encrypted_training hk MNIST Net = Inr (model', w')"
    and p1: "list_all2 (private_batch hk 3 workers crypto_provider one_hot_of) tl ?tb"
    and p2: "list_all2 (private_batch hk 3 workers crypto_provider (\<lambda>target. Inr (float target))) el ?eb"
    and q: "list_all2 (shared_param hk workers crypto_provider) (parameters Net) (parameters model)"
    and s: "sent w' = concat (map (\<lambda>e. sh_shares (fst e) @ sh_shares (snd e)) (tl @ el))
                     @ concat (map param_shares (parameters model))"
    by (rule encrypted_training_spec [OF assms, of hk Net]) (rule that)
  let ?H = "\<lambda>e. holders (fst e) = workers \<and> sh_provider (fst e) = crypto_provider \<and>
         holders (snd e) = workers \<and> sh_provider (snd e) = crypto_provider \<and>
         length (sh_shares (fst e) @ sh_shares (snd e)) = 2 * length workers \<and>
         fst ` set (sh_shares (fst e) @ sh_shares (snd e)) \<subseteq> set workers"
  let ?Q = "\<lambda>q. (case p_data q of Sh s \<Rightarrow> holders s = workers \<and> sh_provider s = crypto_provider
                  | _ \<Rightarrow> False) \<and>
         length (param_shares q) = length workers \<and> fst ` set (param_shares q) \<subseteq> set workers"
  have h1: "list_all ?H tl"
    by (rule list_all2_left [of _ _ ?tb], rule list_all2_mono [OF p1]) (rule private_batch_holders)
  have h2: "list_all ?H el"
    by (rule list_all2_left [of _ _ ?eb], rule list_all2_mono [OF p2]) (rule private_batch_holders)
  have h3: "list_all ?Q (parameters model)"
    by (rule list_all2_right [of _ "parameters Net"], rule list_all2_mono [OF q])
       (rule shared_param_holders)
  have lw: "length workers = 2" by (simp add: workers_eq)
  have hall: "\<forall>e \<in> set (tl @ el). ?H e"
    using h1 h2 by (auto simp: list_all_iff)
  have len1: "length (concat (map (\<lambda>e. sh_shares (fst e) @ sh_shares (snd e)) (tl @ el)))
            = length (tl @ el) * 4"
    by (rule length_concat_uniform) (use hall lw in auto)
  have len2: "length (concat (map param_shares (parameters model))) = length (parameters model) * 2"
    by (rule length_concat_uniform) (use h3 lw in \<open>auto simp: list_all_iff\<close>)
  have len: "length (sent w') = 2 * (2 * (length tl + length el) + 6)"
    unfolding s using len1 len2 by (simp add: parameters_def)
  have rec: "list_all (\<lambda>parcel. fst parcel \<in> set workers \<and> fst parcel \<noteq> crypto_provider) (sent w')"
    unfolding list_all_iff
  proof
    fix parcel assume "parcel \<in> set (sent w')"
    then consider e where "e \<in> set (tl @ el)" "parcel \<in> set (sh_shares (fst e) @ sh_shares (snd e))"
      | r where "r \<in> set (parameters model)" "parcel \<in> set (param_shares r)"
      unfolding s by auto
    then have "fst parcel \<in> set workers"
    proof cases
      case 1
      then show ?thesis using hall by blast
    next
      case 2
      then show ?thesis using h3 by (auto simp: list_all_iff)
    qed
    then show "fst parcel \<in> set workers \<and> fst parcel \<noteq> crypto_provider"
      using crypto_provider_not_worker by auto
  qed
  have hold: "list_all (\<lambda>e. holders (fst e) = workers \<and> sh_provider (fst e) = crypto_provider \<and>
                          holders (snd e) = workers \<and> sh_provider (snd e) = crypto_provider) (tl @ el)"
    using hall by (simp add: list_all_iff)
  have pars: "list_all (\<lambda>q. case p_data q of
                             Sh s \<Rightarrow> holders s = workers \<and> sh_provider s = crypto_provider
                           | _ \<Rightarrow> False) (parameters model)"
    using h3 by (simp add: list_all_iff)
  have "\<exists>private_train_loader private_test_loader w1 model w2 model' w'.
            get_private_data_loaders hk MNIST (precision_fractional args) workers crypto_provider
              initial_world = Inr ((private_train_loader, private_test_loader), w1) \<and>
            model_share hk (model_fix_precision hk Net) workers crypto_provider True w1
              = Inr (model, w2) \<and>
            encrypted_training hk MNIST Net = Inr (model', w') \<and>
            list_all (\<lambda>e. holders (fst e) = workers \<and> sh_provider (fst e) = crypto_provider \<and>
                          holders (snd e) = workers \<and> sh_provider (snd e) = crypto_provider)
              (private_train_loader @ private_test_loader) \<and>
            list_all (\<lambda>q. case p_data q of
                             Sh s \<Rightarrow> holders s = workers \<and> sh_provider s = crypto_provider
                           | _ \<Rightarrow> False)
              (parameters model) \<and>
            sent w' = concat (map (\<lambda>e. sh_shares (fst e) @ sh_shares (snd e))
                               (private_train_loader @ private_test_loader))
                      @ concat (map param_shares (parameters model)) \<and>
            length (sent w')
              = 2 * (2 * (length private_train_loader + length private_test_loader) + 6) \<and>
            list_all (\<lambda>parcel. fst parcel \<in> set workers \<and> fst parcel \<noteq> crypto_provider) (sent w')"
    apply (rule exI [of _ tl], rule exI [of _ el], rule exI [of _ w1])
    apply (rule exI [of _ model], rule exI [of _ w2])
    apply (rule exI [of _ model'], rule exI [of _ w'])
    apply (intro conjI res m run hold pars s len rec)
    done
  then show ?thesis
    using crypto_provider_not_worker lw by blast
qed

text \<open>
  Claim C4, as the code has it. Building the private loaders runs in the local process:
  the data loaders yield every plaintext batch of both splits there, and the local worker
  shares them. From then on the local worker holds shared tensors only: every tensor of
  both loaders has the two workers as its holders, and all that the launched training and
  testing bring to the local worker in the clear are reconstructed aggregates, one scalar
  loss per training batch and one count of correct predictions per test run.
\<close>

theorem only_aggregates_are_reconstructed:
  assumes "mnist_like (MNIST True)" and "mnist_like (MNIST False)" and "MNIST False \<noteq> []"
  shows "\<exists>private_train_loader private_test_loader w1 model' w' train_loader test_loader revealed.
           get_private_data_loaders hk MNIST (precision_fractional args) workers crypto_provider
             initial_world = Inr ((private_train_loader, private_test_loader), w1) \<and>
           encrypted_training hk MNIST Net = Inr (model', w') \<and>
           DataLoader (MNIST True) (batch_size args) = Inr train_loader \<and>
           DataLoader (MNIST False) (test_batch_size args) = Inr test_loader \<and>
           local_view w1 = map (\<lambda>b. Batch (fst b) (snd b)) (train_loader @ test_loader) \<and>
           list_all (\<lambda>e. holders (fst e) = workers \<and> holders (snd e) = workers)
             (private_train_loader @ private_test_loader) \<and>
           local_view w' = local_view w1 @ revealed \<and>
           list_all aggregate revealed \<and>
           length revealed = epochs args * (length private_train_loader + 1)"
proof -
  let ?tb = "map stacked (batches 64 (take 640 (MNIST True)))"
  let ?eb = "map stacked (batches 64 (take 640 (MNIST False)))"
  let ?seen = "map (\<lambda>b. Batch (fst b) (snd b))
                 (map stacked (batches 64 (MNIST True)) @ map stacked (batches 64 (MNIST False)))"
  obtain tl el w1 model w2 model' w' revealed where
    res: "get_private_data_loaders hk MNIST (precision_fractional args) workers crypto_provider
            initial_world = Inr ((tl, el), w1)"
    and run: "encrypted_training hk MNIST Net = Inr (model', w')"
    and p1: "list_all2 (private_batch hk 3 workers crypto_provider one_hot_of) tl ?tb"
    and p2: "list_all2 (private_batch hk 3 workers crypto_provider (\<lambda>target. Inr (float target))) el ?eb"
    and v: "local_view w' = ?seen @ revealed"
    and a: "list_all aggregate revealed"
    and n: "length revealed = epochs args * (length tl + 1)"
    by (rule encrypted_training_spec [OF assms, of hk Net]) (rule that)
  obtain tl' el' w1' where
    res': "get_private_data_loaders hk MNIST (precision_fractional args) workers crypto_provider
            initial_world = Inr ((tl', el'), w1')"
    and v1: "local_view w1' = local_view initial_world @ ?seen"
    by (rule loaders_spec [OF assms(1,2), of hk initial_world]) (rule that)
  have w1: "local_view w1 = ?seen"
    using res res' v1 by (simp add: initial_world_def)
  have d1: "DataLoader (MNIST True) (batch_size args) = Inr (map stacked (batches 64 (MNIST True)))"
    using DataLoader_mnist [OF assms(1), of 64] by (simp add: args_values)
  have d2: "DataLoader (MNIST False) (test_batch_size args) = Inr (map stacked (batches 64 (MNIST False)))"
    using DataLoader_mnist [OF assms(2), of 64] by (simp add: args_values)
  let ?H = "\<lambda>e. holders (fst e) = workers \<and> holders (snd e) = workers"
  have h1: "list_all ?H tl"
    by (rule list_all2_left [of _ _ ?tb], rule list_all2_mono [OF p1])
       (use private_batch_holders in blast)
  have h2: "list_all ?H el"
    by (rule list_all2_left [of _ _ ?eb], rule list_all2_mono [OF p2])
       (use private_batch_holders in blast)
  have h: "list_all ?H (tl @ el)" using h1 h2 by simp
  have v': "local_view w' = local_view w1 @ revealed" using v w1 by simp
  show ?thesis
    apply (rule exI [of _ tl], rule exI [of _ el], rule exI [of _ w1])
    apply (rule exI [of _ model'], rule exI [of _ w'])
    apply (rule exI [of _ "map stacked (batches 64 (MNIST True))"])
    apply (rule exI [of _ "map stacked (batches 64 (MNIST False))"])
    apply (rule exI [of _ revealed])
    apply (intro conjI res run d1 d2 h v' a n)
    apply (simp add: w1)
    done
qed

text \<open>
  Claim C4, as stated, fails on the code: the private loaders are built in the local
  process. On a data set of one item per split, after \<^verbatim>\<open>get_private_data_loaders\<close> the
  local worker has had both items in the clear, the pixel and the label.
\<close>

theorem local_worker_sees_plaintext_batches:
  "map_sum id (local_view \<circ> snd)
     (get_private_data_loaders example_hook tiny_mnist (precision_fractional args) workers
        crypto_provider initial_world)
   = Inr [Batch \<lparr>shape = [1, 1], storage = [1 / 2]\<rparr> \<lparr>shape = [1], storage = [7]\<rparr>,
          Batch \<lparr>shape = [1, 1], storage = [1 / 2]\<rparr> \<lparr>shape = [1], storage = [7]\<rparr>]"
  by code_simp

lemma blank_mnist_like: "mnist_like (blank_mnist tr)"
  by (simp add: mnist_like_def blank_mnist_def blank_image_def list_all_iff)

lemma blank_mnist_length: "length (blank_mnist tr) = 640"
  by (simp add: blank_mnist_def)

lemma blank_mnist_nonempty: "blank_mnist tr \<noteq> []"
  using blank_mnist_length [of tr] by auto


lemma long_mnist_like: "mnist_like (long_mnist tr)"
  by (simp add: mnist_like_def long_mnist_def blank_image_def list_all_iff)

lemma long_mnist_length: "length (long_mnist True) = 700" "length (long_mnist False) = 650"
  by (simp_all add: long_mnist_def)

lemma long_mnist_loader:
  "\<exists>bs. DataLoader (long_mnist tr) 64 = Inr bs \<and> length bs = 11"
  using DataLoader_mnist [OF long_mnist_like, of 64 tr] length_batches_ceil [of 64 "long_mnist tr"]
  by (cases tr) (simp_all add: long_mnist_length)

text \<open>
  Claim C9 on splits longer than 640 items, 700 blank images for training and 650 for
  testing: the data loaders over the whole splits yield 11 batches each, and all 22 pass
  through the local process, but each private loader keeps the first 10 only, the sharing
  of the first 640 items.
\<close>

theorem private_loaders_truncated_witness:
  "mnist_like (long_mnist True) \<and> mnist_like (long_mnist False) \<and>
   n_train_items \<le> length (long_mnist True) \<and> n_test_items \<le> length (long_mnist False) \<and>
   workers \<noteq> [] \<and>
   length (long_mnist True) = 700 \<and> length (long_mnist False) = 650 \<and>
   (\<exists>bs. DataLoader (long_mnist True) (batch_size args) = Inr bs \<and> length bs = 11) \<and>
   (\<exists>bs. DataLoader (long_mnist False) (test_batch_size args) = Inr bs \<and> length bs = 11) \<and>
   (\<exists>private_train_loader private_test_loader w' train_batches test_batches.
      get_private_data_loaders example_hook long_mnist 3 workers crypto_provider initial_world
        = Inr ((private_train_loader, private_test_loader), w') \<and>
      DataLoader (take 640 (long_mnist True)) 64 = Inr train_batches \<and>
      DataLoader (take 640 (long_mnist False)) 64 = Inr test_batches \<and>
      list_all2 (private_batch example_hook 3 workers crypto_provider one_hot_of)
        private_train_loader train_batches \<and>
      list_all2 (private_batch example_hook 3 workers crypto_provider (\<lambda>target. Inr (float target)))
        private_test_loader test_batches \<and>
      length private_train_loader = 10 \<and> length private_test_loader = 10 \<and>
      sum_list (map (\<lambda>b. length (storage (snd b))) train_batches) = 640 \<and>
      sum_list (map (\<lambda>b. length (storage (snd b))) test_batches) = 640 \<and>
      length (local_view w') = 22)"
proof -
  have n: "n_train_items \<le> length (long_mnist True)" "n_test_items \<le> length (long_mnist False)"
    by (simp_all add: long_mnist_length n_train_items_def n_test_items_def)
  obtain private_train_loader private_test_loader w' train_batches test_batches where
    res: "get_private_data_loaders example_hook long_mnist 3 workers crypto_provider initial_world
            = Inr ((private_train_loader, private_test_loader), w')"
    and d1: "DataLoader (take n_train_items (long_mnist True)) (batch_size args) = Inr train_batches"
    and d2: "DataLoader (take n_test_items (long_mnist False)) (test_batch_size args) = Inr test_batches"
    and p1: "list_all2 (private_batch example_hook 3 workers crypto_provider one_hot_of)
               private_train_loader train_batches"
    and p2: "list_all2 (private_batch example_hook 3 workers crypto_provider (\<lambda>target. Inr (float target)))
               private_test_loader test_batches"
    and l1: "length private_train_loader = 10" and l2: "length private_test_loader = 10"
    and s1: "sum_list (map (\<lambda>b. length (storage (snd b))) train_batches) = n_train_items"
    and s2: "sum_list (map (\<lambda>b. length (storage (snd b))) test_batches) = n_test_items"
    using private_loaders_truncated [where MNIST = long_mnist and hk = example_hook and p = 3
        and provider = crypto_provider and w = initial_world,
        OF long_mnist_like long_mnist_like n workers_nonempty]
    by blast
  obtain tl2 el2 w2 where
    res2: "get_private_data_loaders example_hook long_mnist (precision_fractional args) workers
             crypto_provider initial_world = Inr ((tl2, el2), w2)"
    and lv: "local_view w2 = local_view initial_world
           @ map (\<lambda>b. Batch (fst b) (snd b))
               (map stacked (batches 64 (long_mnist True)) @ map stacked (batches 64 (long_mnist False)))"
    by (rule loaders_spec [where MNIST = long_mnist and hk = example_hook and w = initial_world,
          OF long_mnist_like long_mnist_like]) (rule that)
  have w: "w2 = w'" using res res2 by (simp add: args_values)
  have seen: "length (local_view w') = 22"
    using lv length_batches_ceil [of 64 "long_mnist True"] length_batches_ceil [of 64 "long_mnist False"]
    by (simp add: w initial_world_def long_mnist_length)
  have run: "\<exists>private_train_loader private_test_loader w' train_batches test_batches.
      get_private_data_loaders example_hook long_mnist 3 workers crypto_provider initial_world
        = Inr ((private_train_loader, private_test_loader), w') \<and>
      DataLoader (take 640 (long_mnist True)) 64 = Inr train_batches \<and>
      DataLoader (take 640 (long_mnist False)) 64 = Inr test_batches \<and>
      list_all2 (private_batch example_hook 3 workers crypto_provider one_hot_of)
        private_train_loader train_batches \<and>
      list_all2 (private_batch example_hook 3 workers crypto_provider (\<lambda>target. Inr (float target)))
        private_test_loader test_batches \<and>
      length private_train_loader = 10 \<and> length private_test_loader = 10 \<and>
      sum_list (map (\<lambda>b. length (storage (snd b))) train_batches) = 640 \<and>
      sum_list (map (\<lambda>b. length (storage (snd b))) test_batches) = 640 \<and>
      length (local_view w') = 22"
    apply (rule exI [of _ private_train_loader], rule exI [of _ private_test_loader],
           rule exI [of _ w'], rule exI [of _ train_batches], rule exI [of _ test_batches])
    apply (insert res d1 d2 p1 p2 l1 l2 s1 s2 seen)
    apply (simp add: args_values n_train_items_def n_test_items_def)
    done
  show ?thesis
    using long_mnist_like n workers_nonempty long_mnist_length
      long_mnist_loader [of True] long_mnist_loader [of False] run
    by (simp add: args_values)
qed


text \<open>Claim C5 on the same inputs.\<close>

theorem crypto_provider_receives_no_share_witness:
  "mnist_like (blank_mnist True) \<and> mnist_like (blank_mnist False) \<and> blank_mnist False \<noteq> [] \<and>
   crypto_provider \<notin> set workers \<and>
   (\<exists>model' w'.
      encrypted_training example_hook blank_mnist example_net = Inr (model', w') \<and>
      list_all (\<lambda>parcel. fst parcel \<in> set workers \<and> fst parcel \<noteq> crypto_provider) (sent w'))"
proof -
  have "crypto_provider \<notin> set workers \<and>
   (\<exists>model' w'.
      encrypted_training example_hook blank_mnist example_net = Inr (model', w') \<and>
      list_all (\<lambda>parcel. fst parcel \<in> set workers \<and> fst parcel \<noteq> crypto_provider) (sent w'))"
    using crypto_provider_receives_no_share [where MNIST = blank_mnist and hk = example_hook
        and Net = example_net, OF blank_mnist_like blank_mnist_like blank_mnist_nonempty]
    by (elim exE conjE) (intro exI conjI, assumption+)
  then show ?thesis
    using blank_mnist_like blank_mnist_nonempty by simp
qed

text \<open>Claim C4 (as the code has it) on the same inputs: 20 plaintext batches pass through
  the local worker while the loaders are built, and the 10 epochs reconstruct 110
  aggregates, 10 losses and one count each.\<close>

theorem only_aggregates_are_reconstructed_witness:
  "mnist_like (blank_mnist True) \<and> mnist_like (blank_mnist False) \<and> blank_mnist False \<noteq> [] \<and>
   (\<exists>model' w' seen revealed.
      encrypted_training example_hook blank_mnist example_net = Inr (model', w') \<and>
      local_view w' = seen @ revealed \<and> list_all aggregate revealed \<and>
      length seen = 20 \<and> length revealed = 110)"
proof -
  obtain private_train_loader private_test_loader w1 model' w' train_loader test_loader revealed
    where run: "encrypted_training example_hook blank_mnist example_net = Inr (model', w')"
      and res: "get_private_data_loaders example_hook blank_mnist (precision_fractional args) workers
                  crypto_provider initial_world = Inr ((private_train_loader, private_test_loader), w1)"
      and d1: "DataLoader (blank_mnist True) (batch_size args) = Inr train_loader"
      and d2: "DataLoader (blank_mnist False) (test_batch_size args) = Inr test_loader"
      and v1: "local_view w1 = map (\<lambda>b. Batch (fst b) (snd b)) (train_loader @ test_loader)"
      and v: "local_view w' = local_view w1 @ revealed"
      and a: "list_all aggregate revealed"
      and n: "length revealed = epochs args * (length private_train_loader + 1)"
    using only_aggregates_are_reconstructed [where MNIST = blank_mnist and hk = example_hook
        and Net = example_net, OF blank_mnist_like blank_mnist_like blank_mnist_nonempty]
    by (elim exE conjE) (rule that)
  have len: "length (blank_mnist tr) = 10 * 64" for tr by (simp add: blank_mnist_length)
  have lb: "length (batches 64 (blank_mnist tr)) = 10" for tr
    using length_batches [OF _ len] by simp
  have "DataLoader (blank_mnist tr) 64 = Inr (map stacked (batches 64 (blank_mnist tr)))" for tr
    using DataLoader_mnist [OF blank_mnist_like, of 64 tr] by simp
  with d1 d2 have "length train_loader = 10" "length test_loader = 10"
    using lb by (auto simp: args_values)
  then have seen: "length (local_view w1) = 20" using v1 by simp
  obtain tl2 el2 w2 where
    res2: "get_private_data_loaders example_hook blank_mnist (precision_fractional args) workers
             crypto_provider initial_world = Inr ((tl2, el2), w2)"
    and p2: "list_all2 (private_batch example_hook 3 workers crypto_provider one_hot_of)
               tl2 (map stacked (batches 64 (take 640 (blank_mnist True))))"
    by (rule loaders_spec [where MNIST = blank_mnist and hk = example_hook and w = initial_world,
          OF blank_mnist_like blank_mnist_like]) (rule that)
  have "tl2 = private_train_loader" using res res2 by simp
  then have "length private_train_loader = length (batches 64 (take 640 (blank_mnist True)))"
    using p2 by (auto dest: list_all2_lengthD)
  then have "length private_train_loader = 10"
    using lb by (simp add: blank_mnist_length)
  then have "length revealed = 110" using n by (simp add: args_values)
  then have "\<exists>model' w' seen revealed.
      encrypted_training example_hook blank_mnist example_net = Inr (model', w') \<and>
      local_view w' = seen @ revealed \<and> list_all aggregate revealed \<and>
      length seen = 20 \<and> length revealed = 110"
    using run v a seen by blast
  then show ?thesis
    using blank_mnist_like blank_mnist_nonempty by simp
qed

section \<open>Properties of the split-network notebook\<close>

lemma workers_distinct: "alice \<noteq> bob" "bob \<noteq> alice" "alice \<noteq> local_worker" "bob \<noteq> local_worker"
  by (simp_all add: alice_def bob_def local_worker_def)

lemma and_then_Inr [simp]: "and_then (Inr x) f = f x"
  by (simp add: and_then_def)

lemma and_then_Inl [simp]: "and_then (Inl e) f = Inl e"
  by (simp add: and_then_def)

lemma split_train_run:
  assumes x: "objects w (id_at_location x) = Some ox" "holder ox = location x"
      "leaves ox = []" "id_at_location x < next_id w"
    and t: "objects w (id_at_location target) = Some ot" "holder ot = location target"
      "leaves ot = []" "id_at_location target < next_id w"
    and m0: "objects w (id_at_location m0) = Some o0" "holder o0 = location m0"
      "leaves o0 = [id_at_location m0]" "id_at_location m0 < next_id w"
    and m1: "objects w (id_at_location m1) = Some o1" "holder o1 = location m1"
      "leaves o1 = [id_at_location m1]" "id_at_location m1 < next_id w"
    and l: "location x = location m0" "location target = location m1"
    and d: "distinct (map id_at_location [x, target, m0, m1])"
    and o: "opt_params opt0 = m0" "opt_params opt1 = m1"
  shows "\<exists>w' o0' o1'. split_train x target [m0, m1] [opt0, opt1] w
           = Inr (Detached (NLL (Apply (content o1) (Detached (Apply (content o0) (content ox)))) (content ot)), w') \<and>
          calls w' = calls w @
            [ZeroGradCall m0, ZeroGradCall m1, ForwardCall m0 x, DetachCall (fresh w 0 (location m0)),
             MoveCall (fresh w 1 (location m0)) (location m1),
             RequiresGradCall (fresh w 2 (location m1)),
             ForwardCall m1 (fresh w 2 (location m1)), NLLLossCall (fresh w 3 (location m1)) target,
             BackwardCall (fresh w 4 (location m1)) None, GradCall (fresh w 2 (location m1)),
             CopyCall (fresh w 5 (location m1)),
             MoveCall (fresh w 6 (location m1)) (location m0),
             BackwardCall (fresh w 0 (location m0)) (Some (fresh w 7 (location m0))),
             StepCall m0, StepCall m1, DetachCall (fresh w 4 (location m1)),
             GetCall (fresh w 8 (location m1))] \<and>
          transfers w' = transfers w @
            [(location m0, location m1, Detached (Apply (content o0) (content ox))),
             (location m1, location m0,
              GradOf (NLL (Apply (content o1) (Detached (Apply (content o0) (content ox)))) (content ot))
                (Detached (Apply (content o0) (content ox)))),
             (location m1, local_worker,
              Detached (NLL (Apply (content o1) (Detached (Apply (content o0) (content ox)))) (content ot)))] \<and>
          next_id w' = next_id w + 9 \<and>
          objects w' (id_at_location x) = Some ox \<and>
          objects w' (id_at_location target) = Some ot \<and>
          objects w' (id_at_location m0) = Some o0' \<and> holder o0' = location m0 \<and>
          leaves o0' = [id_at_location m0] \<and>
          objects w' (id_at_location m1) = Some o1' \<and> holder o1' = location m1 \<and>
          leaves o1' = [id_at_location m1] \<and>
          (\<forall>i. i < next_id w \<longrightarrow> i \<noteq> id_at_location m0 \<longrightarrow> i \<noteq> id_at_location m1 \<longrightarrow>
               objects w' i = objects w i)"
  using assms
  apply (simp add: split_train_def item_def opt_zero_grad_def lookup_def record_call_def
      remote_forward_def alloc_def detach_def move_def set_requires_grad_def nll_loss_def
      backward_from_def leaf_gradient_def accumulate_def grad_of_def copy_def opt_step_def get_def
      fresh_def Let_def)
  done

lemma two_optimizers:
  assumes "map opt_params optimizers = [m0, m1]"
  obtains opt0 opt1 where "optimizers = [opt0, opt1]" "opt_params opt0 = m0" "opt_params opt1 = m1"
proof -
  from assms obtain opt0 rest where a: "optimizers = opt0 # rest" by (cases optimizers) auto
  with assms obtain opt1 rest' where b: "rest = opt1 # rest'" by (cases rest) auto
  with a assms have "rest' = []" by simp
  with a b assms show ?thesis by (intro that [of opt0 opt1]) simp_all
qed

lemma split_train_spec:
  assumes "data_at w x ox" and "data_at w target ot"
    and "segment_at w m0 o0" and "segment_at w m1 o1"
    and "location x = location m0" and "location target = location m1"
    and "distinct (map id_at_location [x, target, m0, m1])"
    and "map opt_params optimizers = [m0, m1]"
  obtains w' o0' o1' where
    "split_train x target [m0, m1] optimizers w = Inr (Detached (loss_of o0 o1 ox ot), w')"
    and "calls w' = calls w @
            [ZeroGradCall m0, ZeroGradCall m1, ForwardCall m0 x, DetachCall (fresh w 0 (location m0)),
             MoveCall (fresh w 1 (location m0)) (location m1),
             RequiresGradCall (fresh w 2 (location m1)),
             ForwardCall m1 (fresh w 2 (location m1)), NLLLossCall (fresh w 3 (location m1)) target,
             BackwardCall (fresh w 4 (location m1)) None, GradCall (fresh w 2 (location m1)),
             CopyCall (fresh w 5 (location m1)),
             MoveCall (fresh w 6 (location m1)) (location m0),
             BackwardCall (fresh w 0 (location m0)) (Some (fresh w 7 (location m0))),
             StepCall m0, StepCall m1, DetachCall (fresh w 4 (location m1)),
             GetCall (fresh w 8 (location m1))]"
    and "transfers w' = transfers w @
            [(location m0, location m1, Detached (activation o0 ox)),
             (location m1, location m0, GradOf (loss_of o0 o1 ox ot) (Detached (activation o0 ox))),
             (location m1, local_worker, Detached (loss_of o0 o1 ox ot))]"
    and "next_id w' = next_id w + 9"
    and "data_at w' x ox" and "data_at w' target ot"
    and "segment_at w' m0 o0'" and "segment_at w' m1 o1'"
    and "\<forall>i. i < next_id w \<longrightarrow> i \<noteq> id_at_location m0 \<longrightarrow> i \<noteq> id_at_location m1 \<longrightarrow>
               objects w' i = objects w i"
proof -
  obtain opt0 opt1 where opt: "optimizers = [opt0, opt1]" "opt_params opt0 = m0" "opt_params opt1 = m1"
    using two_optimizers [OF assms(8)] .
  have "\<exists>w' o0' o1'. split_train x target [m0, m1] [opt0, opt1] w
           = Inr (Detached (NLL (Apply (content o1) (Detached (Apply (content o0) (content ox)))) (content ot)), w') \<and>
          calls w' = calls w @
            [ZeroGradCall m0, ZeroGradCall m1, ForwardCall m0 x, DetachCall (fresh w 0 (location m0)),
             MoveCall (fresh w 1 (location m0)) (location m1),
             RequiresGradCall (fresh w 2 (location m1)),
             ForwardCall m1 (fresh w 2 (location m1)), NLLLossCall (fresh w 3 (location m1)) target,
             BackwardCall (fresh w 4 (location m1)) None, GradCall (fresh w 2 (location m1)),
             CopyCall (fresh w 5 (location m1)),
             MoveCall (fresh w 6 (location m1)) (location m0),
             BackwardCall (fresh w 0 (location m0)) (Some (fresh w 7 (location m0))),
             StepCall m0, StepCall m1, DetachCall (fresh w 4 (location m1)),
             GetCall (fresh w 8 (location m1))] \<and>
          transfers w' = transfers w @
            [(location m0, location m1, Detached (Apply (content o0) (content ox))),
             (location m1, location m0,
              GradOf (NLL (Apply (content o1) (Detached (Apply (content o0) (content ox)))) (content ot))
                (Detached (Apply (content o0) (content ox)))),
             (location m1, local_worker,
              Detached (NLL (Apply (content o1) (Detached (Apply (content o0) (content ox)))) (content ot)))] \<and>
          next_id w' = next_id w + 9 \<and>
          objects w' (id_at_location x) = Some ox \<and>
          objects w' (id_at_location target) = Some ot \<and>
          objects w' (id_at_location m0) = Some o0' \<and> holder o0' = location m0 \<and>
          leaves o0' = [id_at_location m0] \<and>
          objects w' (id_at_location m1) = Some o1' \<and> holder o1' = location m1 \<and>
          leaves o1' = [id_at_location m1] \<and>
          (\<forall>i. i < next_id w \<longrightarrow> i \<noteq> id_at_location m0 \<longrightarrow> i \<noteq> id_at_location m1 \<longrightarrow>
               objects w' i = objects w i)"
    using assms(1-7) opt(2,3)
    by (intro split_train_run) (simp_all add: data_at_def segment_at_def tensor_at_def)
  then obtain w' o0' o1' where
    r: "split_train x target [m0, m1] [opt0, opt1] w
           = Inr (Detached (NLL (Apply (content o1) (Detached (Apply (content o0) (content ox)))) (content ot)), w')"
    and c: "calls w' = calls w @
            [ZeroGradCall m0, ZeroGradCall m1, ForwardCall m0 x, DetachCall (fresh w 0 (location m0)),
             MoveCall (fresh w 1 (location m0)) (location m1),
             RequiresGradCall (fresh w 2 (location m1)),
             ForwardCall m1 (fresh w 2 (location m1)), NLLLossCall (fresh w 3 (location m1)) target,
             BackwardCall (fresh w 4 (location m1)) None, GradCall (fresh w 2 (location m1)),
             CopyCall (fresh w 5 (location m1)),
             MoveCall (fresh w 6 (location m1)) (location m0),
             BackwardCall (fresh w 0 (location m0)) (Some (fresh w 7 (location m0))),
             StepCall m0, StepCall m1, DetachCall (fresh w 4 (location m1)),
             GetCall (fresh w 8 (location m1))]"
    and t: "transfers w' = transfers w @
            [(location m0, location m1, Detached (Apply (content o0) (content ox))),
             (location m1, location m0,
              GradOf (NLL (Apply (content o1) (Detached (Apply (content o0) (content ox)))) (content ot))
                (Detached (Apply (content o0) (content ox)))),
             (location m1, local_worker,
              Detached (NLL (Apply (content o1) (Detached (Apply (content o0) (content ox)))) (content ot)))]"
    and n: "next_id w' = next_id w + 9"
    and ob: "objects w' (id_at_location x) = Some ox" "objects w' (id_at_location target) = Some ot"
      "objects w' (id_at_location m0) = Some o0'" "holder o0' = location m0"
      "leaves o0' = [id_at_location m0]"
      "objects w' (id_at_location m1) = Some o1'" "holder o1' = location m1"
      "leaves o1' = [id_at_location m1]"
    and f: "\<forall>i. i < next_id w \<longrightarrow> i \<noteq> id_at_location m0 \<longrightarrow> i \<noteq> id_at_location m1 \<longrightarrow>
               objects w' i = objects w i"
    by blast
  show ?thesis
  proof (rule that [of w' o0' o1'])
    show "split_train x target [m0, m1] optimizers w = Inr (Detached (loss_of o0 o1 ox ot), w')"
      using r opt(1) by (simp add: loss_of_def activation_def)
    show "calls w' = calls w @
            [ZeroGradCall m0, ZeroGradCall m1, ForwardCall m0 x, DetachCall (fresh w 0 (location m0)),
             MoveCall (fresh w 1 (location m0)) (location m1),
             RequiresGradCall (fresh w 2 (location m1)),
             ForwardCall m1 (fresh w 2 (location m1)), NLLLossCall (fresh w 3 (location m1)) target,
             BackwardCall (fresh w 4 (location m1)) None, GradCall (fresh w 2 (location m1)),
             CopyCall (fresh w 5 (location m1)),
             MoveCall (fresh w 6 (location m1)) (location m0),
             BackwardCall (fresh w 0 (location m0)) (Some (fresh w 7 (location m0))),
             StepCall m0, StepCall m1, DetachCall (fresh w 4 (location m1)),
             GetCall (fresh w 8 (location m1))]"
      by (rule c)
    show "transfers w' = transfers w @
            [(location m0, location m1, Detached (activation o0 ox)),
             (location m1, location m0, GradOf (loss_of o0 o1 ox ot) (Detached (activation o0 ox))),
             (location m1, local_worker, Detached (loss_of o0 o1 ox ot))]"
      using t by (simp add: loss_of_def activation_def)
    show "next_id w' = next_id w + 9" by (rule n)
    show "data_at w' x ox" "data_at w' target ot"
      using assms(1,2) ob n by (simp_all add: data_at_def tensor_at_def)
    show "segment_at w' m0 o0'" "segment_at w' m1 o1'"
      using assms(3,4) ob n by (simp_all add: segment_at_def tensor_at_def)
    show "\<forall>i. i < next_id w \<longrightarrow> i \<noteq> id_at_location m0 \<longrightarrow> i \<noteq> id_at_location m1 \<longrightarrow>
               objects w' i = objects w i"
      by (rule f)
  qed
qed

text \<open>
  Claim C3. On an input held where the first segment is and a target held where the
  second segment is, \<^verbatim>\<open>train\<close> returns, and the calls it makes on the framework are, in this
  order: \<^verbatim>\<open>zero_grad\<close> on both optimizers; the forward pass of the first segment; \<^verbatim>\<open>detach\<close>
  on the activation, \<^verbatim>\<open>move\<close> of the detached activation to the location of the second
  segment, \<^verbatim>\<open>requires_grad_\<close> on what arrived; the forward pass of the second segment; the
  NLL loss against the target; \<^verbatim>\<open>backward\<close> on the loss; \<^verbatim>\<open>grad\<close> of the moved activation,
  \<^verbatim>\<open>copy\<close>, \<^verbatim>\<open>move\<close> of the copy to the location of the first segment; \<^verbatim>\<open>backward\<close> on the
  original activation with that gradient; \<^verbatim>\<open>step\<close> on both optimizers; \<^verbatim>\<open>detach\<close> on the
  loss and \<^verbatim>\<open>get\<close>, which brings the detached loss to the local worker as the result.
\<close>

theorem split_train_steps:
  assumes "data_at w x ox" and "data_at w target ot"
    and "segment_at w m0 o0" and "segment_at w m1 o1"
    and "location x = location m0" and "location target = location m1"
    and "distinct (map id_at_location [x, target, m0, m1])"
    and "map opt_params optimizers = [m0, m1]"
  shows "\<exists>loss w'.
          split_train x target [m0, m1] optimizers w = Inr (loss, w') \<and>
          calls w' = calls w @
            [ZeroGradCall m0, ZeroGradCall m1, ForwardCall m0 x, DetachCall (fresh w 0 (location m0)),
             MoveCall (fresh w 1 (location m0)) (location m1),
             RequiresGradCall (fresh w 2 (location m1)),
             ForwardCall m1 (fresh w 2 (location m1)), NLLLossCall (fresh w 3 (location m1)) target,
             BackwardCall (fresh w 4 (location m1)) None, GradCall (fresh w 2 (location m1)),
             CopyCall (fresh w 5 (location m1)),
             MoveCall (fresh w 6 (location m1)) (location m0),
             BackwardCall (fresh w 0 (location m0)) (Some (fresh w 7 (location m0))),
             StepCall m0, StepCall m1, DetachCall (fresh w 4 (location m1)),
             GetCall (fresh w 8 (location m1))] \<and>
          loss = Detached (NLL (Apply (content o1) (Detached (Apply (content o0) (content ox))))
                             (content ot)) \<and>
          last (transfers w') = (location m1, local_worker, loss)"
proof -
  obtain w' where
    r: "split_train x target [m0, m1] optimizers w = Inr (Detached (loss_of o0 o1 ox ot), w')"
    and c: "calls w' = calls w @
            [ZeroGradCall m0, ZeroGradCall m1, ForwardCall m0 x, DetachCall (fresh w 0 (location m0)),
             MoveCall (fresh w 1 (location m0)) (location m1),
             RequiresGradCall (fresh w 2 (location m1)),
             ForwardCall m1 (fresh w 2 (location m1)), NLLLossCall (fresh w 3 (location m1)) target,
             BackwardCall (fresh w 4 (location m1)) None, GradCall (fresh w 2 (location m1)),
             CopyCall (fresh w 5 (location m1)),
             MoveCall (fresh w 6 (location m1)) (location m0),
             BackwardCall (fresh w 0 (location m0)) (Some (fresh w 7 (location m0))),
             StepCall m0, StepCall m1, DetachCall (fresh w 4 (location m1)),
             GetCall (fresh w 8 (location m1))]"
    and t: "transfers w' = transfers w @
            [(location m0, location m1, Detached (activation o0 ox)),
             (location m1, location m0, GradOf (loss_of o0 o1 ox ot) (Detached (activation o0 ox))),
             (location m1, local_worker, Detached (loss_of o0 o1 ox ot))]"
    by (rule split_train_spec [OF assms]) (rule that)
  show ?thesis
    using r c t by (simp add: loss_of_def activation_def)
qed

text \<open>
  Claim C1. With the input held by alice, where the bottom segment is, and the labels
  held by bob, where the top segment is, one call of \<^verbatim>\<open>train\<close> carries exactly three tensors
  from one worker to another: the detached activation of the bottom segment from alice to
  bob, the gradient of the loss with respect to that activation from bob to alice, and the
  detached loss from bob to the local worker. Between the two parties only the first two
  cross. The input is still alice's and the labels are still bob's afterwards.
\<close>

theorem split_train_crossings:
  assumes "data_at w x ox" and "data_at w target ot"
    and "segment_at w m0 o0" and "segment_at w m1 o1"
    and "location x = alice" and "location m0 = alice"
    and "location target = bob" and "location m1 = bob"
    and "distinct (map id_at_location [x, target, m0, m1])"
    and "map opt_params optimizers = [m0, m1]"
  shows "\<exists>loss w'.
          split_train x target [m0, m1] optimizers w = Inr (loss, w') \<and>
          transfers w' = transfers w @
            [(alice, bob, Detached (activation o0 ox)),
             (bob, alice, GradOf (loss_of o0 o1 ox ot) (Detached (activation o0 ox))),
             (bob, local_worker, loss)] \<and>
          crossing (transfers w') = crossing (transfers w) @
            [(alice, bob, Detached (activation o0 ox)),
             (bob, alice, GradOf (loss_of o0 o1 ox ot) (Detached (activation o0 ox)))] \<and>
          data_at w' x ox \<and> holder ox = alice \<and> data_at w' target ot \<and> holder ot = bob"
proof -
  have l: "location x = location m0" "location target = location m1"
    using assms(5-8) by simp_all
  obtain w' where
    r: "split_train x target [m0, m1] optimizers w = Inr (Detached (loss_of o0 o1 ox ot), w')"
    and t: "transfers w' = transfers w @
            [(location m0, location m1, Detached (activation o0 ox)),
             (location m1, location m0, GradOf (loss_of o0 o1 ox ot) (Detached (activation o0 ox))),
             (location m1, local_worker, Detached (loss_of o0 o1 ox ot))]"
    and d: "data_at w' x ox" "data_at w' target ot"
    by (rule split_train_spec [OF assms(1-4) l assms(9,10)]) (rule that)
  have h: "holder ox = alice" "holder ot = bob"
    using assms(1,2,5,7) by (simp_all add: data_at_def tensor_at_def)
  show ?thesis
    using r t d h assms(6,8) workers_distinct by (simp add: crossing_def)
qed

text \<open>
  Claim C10. With the bottom segment at alice and the top segment at bob, a call of
  \<^verbatim>\<open>train\<close> leaves both segments where they are: afterwards the pointers of the two
  segments, which are the pointers that the optimizers hold, still name tensors held by
  alice and by bob, and none of the tensors that existed before, the two segments
  included, has changed its holder. The tensors that moved are new ones.
\<close>

theorem split_train_keeps_segments:
  assumes "data_at w x ox" and "data_at w target ot"
    and "segment_at w m0 o0" and "segment_at w m1 o1"
    and "location x = alice" and "location m0 = alice"
    and "location target = bob" and "location m1 = bob"
    and "distinct (map id_at_location [x, target, m0, m1])"
    and "map opt_params optimizers = [m0, m1]"
  shows "\<exists>loss w' o0' o1'.
          split_train x target [m0, m1] optimizers w = Inr (loss, w') \<and>
          segment_at w' m0 o0' \<and> holder o0' = alice \<and>
          segment_at w' m1 o1' \<and> holder o1' = bob \<and>
          map opt_params optimizers = [m0, m1] \<and>
          (\<forall>i<next_id w. map_option holder (objects w' i) = map_option holder (objects w i))"
proof -
  have l: "location x = location m0" "location target = location m1"
    using assms(5-8) by simp_all
  obtain w' o0' o1' where
    r: "split_train x target [m0, m1] optimizers w = Inr (Detached (loss_of o0 o1 ox ot), w')"
    and s: "segment_at w' m0 o0'" "segment_at w' m1 o1'"
    and f: "\<forall>i. i < next_id w \<longrightarrow> i \<noteq> id_at_location m0 \<longrightarrow> i \<noteq> id_at_location m1 \<longrightarrow>
               objects w' i = objects w i"
    by (rule split_train_spec [OF assms(1-4) l assms(9,10)]) (rule that)
  have h: "holder o0' = alice" "holder o1' = bob" "holder o0 = alice" "holder o1 = bob"
    using s assms(3,4,6,8) by (simp_all add: segment_at_def tensor_at_def)
  have "map_option holder (objects w' i) = map_option holder (objects w i)" if "i < next_id w" for i
  proof (cases "i = id_at_location m0 \<or> i = id_at_location m1")
    case True
    then show ?thesis
      using s assms(3,4) h by (auto simp: segment_at_def tensor_at_def)
  next
    case False
    then show ?thesis using f that by simp
  qed
  then have fr: "\<forall>i<next_id w. map_option holder (objects w' i) = map_option holder (objects w i)"
    by blast
  show ?thesis
    apply (rule exI [of _ "Detached (loss_of o0 o1 ox ot)"], rule exI [of _ w'])
    apply (rule exI [of _ o0'], rule exI [of _ o1'])
    apply (intro conjI r s h(1,2) assms(10) fr)
    done
qed

lemma initial_setup_eq:
  "initial_setup =
     ([ptr alice 0, ptr bob 1], [sgd (ptr alice 0), sgd (ptr bob 1)],
      \<lparr>objects = (\<lambda>i. None)(0 := Some bottom_segment, 1 := Some top_segment), next_id = 2,
       calls = [SendCall alice, SendCall bob],
       transfers = [(local_worker, alice, Segment 0), (local_worker, bob, Segment 1)]\<rparr>)"
  by (simp add: initial_setup_def model_locations_def send_def alloc_def record_call_def
      empty_world_def ptr_def sgd_def bottom_segment_def top_segment_def Let_def)

lemma first_world_reached:
  "train_on_batch [ptr alice 0, ptr bob 1] [sgd (ptr alice 0), sgd (ptr bob 1)]
     (first_images, first_labels) ([], snd (snd initial_setup))
   = and_then (split_train (ptr alice 3) (ptr bob 4) [ptr alice 0, ptr bob 1]
                 [sgd (ptr alice 0), sgd (ptr bob 1)] first_world)
       (\<lambda>(loss, w4). Inr ([] @ [loss], w4))"
  by (simp add: initial_setup_eq train_on_batch_def send_def view_flat_def alloc_def
      record_call_def lookup_def first_world_def ptr_def sent_images_def flat_images_def
      sent_labels_def bottom_segment_def Let_def fun_upd_twist)

lemma first_world_facts:
  "data_at first_world (ptr alice 3) flat_images" "data_at first_world (ptr bob 4) sent_labels"
  "segment_at first_world (ptr alice 0) bottom_segment" "segment_at first_world (ptr bob 1) top_segment"
  "location (ptr alice 3) = alice" "location (ptr alice 0) = alice"
  "location (ptr bob 4) = bob" "location (ptr bob 1) = bob"
  "distinct (map id_at_location [ptr alice 3, ptr bob 4, ptr alice 0, ptr bob 1])"
  "map opt_params [sgd (ptr alice 0), sgd (ptr bob 1)] = [ptr alice 0, ptr bob 1]"
  by (simp_all add: data_at_def segment_at_def tensor_at_def first_world_def ptr_def sgd_def
      flat_images_def sent_labels_def bottom_segment_def top_segment_def)

text \<open>Claim C3 at the first call of \<^verbatim>\<open>train\<close> in the notebook: the seventeen calls, on the
  tensors 5 to 13 that the call creates.\<close>

theorem split_train_steps_witness:
  "data_at first_world (ptr alice 3) flat_images \<and> data_at first_world (ptr bob 4) sent_labels \<and>
   segment_at first_world (ptr alice 0) bottom_segment \<and>
   segment_at first_world (ptr bob 1) top_segment \<and>
   location (ptr alice 3) = location (ptr alice 0) \<and> location (ptr bob 4) = location (ptr bob 1) \<and>
   distinct (map id_at_location [ptr alice 3, ptr bob 4, ptr alice 0, ptr bob 1]) \<and>
   map opt_params [sgd (ptr alice 0), sgd (ptr bob 1)] = [ptr alice 0, ptr bob 1] \<and>
   (\<exists>loss w'.
      split_train (ptr alice 3) (ptr bob 4) [ptr alice 0, ptr bob 1]
        [sgd (ptr alice 0), sgd (ptr bob 1)] first_world = Inr (loss, w') \<and>
      calls w' = calls first_world @
        [ZeroGradCall (ptr alice 0), ZeroGradCall (ptr bob 1),
         ForwardCall (ptr alice 0) (ptr alice 3), DetachCall (ptr alice 5),
         MoveCall (ptr alice 6) bob, RequiresGradCall (ptr bob 7),
         ForwardCall (ptr bob 1) (ptr bob 7), NLLLossCall (ptr bob 8) (ptr bob 4),
         BackwardCall (ptr bob 9) None, GradCall (ptr bob 7), CopyCall (ptr bob 10),
         MoveCall (ptr bob 11) alice, BackwardCall (ptr alice 5) (Some (ptr alice 12)),
         StepCall (ptr alice 0), StepCall (ptr bob 1), DetachCall (ptr bob 9),
         GetCall (ptr bob 13)] \<and>
      loss = Detached (NLL (Apply (Segment 1) (Detached (Apply (Segment 0) (Flat (Float first_images)))))
                         (Long first_labels)))"
proof -
  have l: "location (ptr alice 3) = location (ptr alice 0)" "location (ptr bob 4) = location (ptr bob 1)"
    by (simp_all add: ptr_def)
  have n: "next_id first_world = 5" by (simp add: first_world_def)
  have "\<exists>loss w'.
      split_train (ptr alice 3) (ptr bob 4) [ptr alice 0, ptr bob 1]
        [sgd (ptr alice 0), sgd (ptr bob 1)] first_world = Inr (loss, w') \<and>
      calls w' = calls first_world @
        [ZeroGradCall (ptr alice 0), ZeroGradCall (ptr bob 1),
         ForwardCall (ptr alice 0) (ptr alice 3), DetachCall (ptr alice 5),
         MoveCall (ptr alice 6) bob, RequiresGradCall (ptr bob 7),
         ForwardCall (ptr bob 1) (ptr bob 7), NLLLossCall (ptr bob 8) (ptr bob 4),
         BackwardCall (ptr bob 9) None, GradCall (ptr bob 7), CopyCall (ptr bob 10),
         MoveCall (ptr bob 11) alice, BackwardCall (ptr alice 5) (Some (ptr alice 12)),
         StepCall (ptr alice 0), StepCall (ptr bob 1), DetachCall (ptr bob 9),
         GetCall (ptr bob 13)] \<and>
      loss = Detached (NLL (Apply (Segment 1) (Detached (Apply (Segment 0) (Flat (Float first_images)))))
                         (Long first_labels))"
    using split_train_steps [OF first_world_facts(1-4) l first_world_facts(9,10)]
    by (elim exE conjE)
       (intro exI conjI, assumption,
        simp_all add: fresh_def n ptr_def flat_images_def sent_labels_def bottom_segment_def
          top_segment_def)
  then show ?thesis
    using first_world_facts l by simp
qed

text \<open>Claim C1 at the first call of \<^verbatim>\<open>train\<close> in the notebook.\<close>

theorem split_train_crossings_witness:
  "data_at first_world (ptr alice 3) flat_images \<and> data_at first_world (ptr bob 4) sent_labels \<and>
   segment_at first_world (ptr alice 0) bottom_segment \<and>
   segment_at first_world (ptr bob 1) top_segment \<and>
   location (ptr alice 3) = alice \<and> location (ptr alice 0) = alice \<and>
   location (ptr bob 4) = bob \<and> location (ptr bob 1) = bob \<and>
   distinct (map id_at_location [ptr alice 3, ptr bob 4, ptr alice 0, ptr bob 1]) \<and>
   map opt_params [sgd (ptr alice 0), sgd (ptr bob 1)] = [ptr alice 0, ptr bob 1] \<and>
   (\<exists>loss w'.
      split_train (ptr alice 3) (ptr bob 4) [ptr alice 0, ptr bob 1]
        [sgd (ptr alice 0), sgd (ptr bob 1)] first_world = Inr (loss, w') \<and>
      crossing (transfers w') =
        [(alice, bob, Detached (Apply (Segment 0) (Flat (Float first_images)))),
         (bob, alice,
          GradOf (NLL (Apply (Segment 1) (Detached (Apply (Segment 0) (Flat (Float first_images)))))
                    (Long first_labels))
            (Detached (Apply (Segment 0) (Flat (Float first_images)))))] \<and>
      data_at w' (ptr alice 3) flat_images \<and> data_at w' (ptr bob 4) sent_labels)"
proof -
  have c: "crossing (transfers first_world) = []"
    by (simp add: crossing_def first_world_def)
  have "\<exists>loss w'.
      split_train (ptr alice 3) (ptr bob 4) [ptr alice 0, ptr bob 1]
        [sgd (ptr alice 0), sgd (ptr bob 1)] first_world = Inr (loss, w') \<and>
      crossing (transfers w') =
        [(alice, bob, Detached (Apply (Segment 0) (Flat (Float first_images)))),
         (bob, alice,
          GradOf (NLL (Apply (Segment 1) (Detached (Apply (Segment 0) (Flat (Float first_images)))))
                    (Long first_labels))
            (Detached (Apply (Segment 0) (Flat (Float first_images)))))] \<and>
      data_at w' (ptr alice 3) flat_images \<and> data_at w' (ptr bob 4) sent_labels"
    using split_train_crossings [OF first_world_facts]
    by (elim exE conjE)
       (intro exI conjI, assumption,
        simp_all add: c activation_def loss_of_def flat_images_def sent_labels_def
          bottom_segment_def top_segment_def)
  then show ?thesis
    using first_world_facts by simp
qed

text \<open>Claim C10 at the first call of \<^verbatim>\<open>train\<close> in the notebook.\<close>

theorem split_train_keeps_segments_witness:
  "data_at first_world (ptr alice 3) flat_images \<and> data_at first_world (ptr bob 4) sent_labels \<and>
   segment_at first_world (ptr alice 0) bottom_segment \<and>
   segment_at first_world (ptr bob 1) top_segment \<and>
   location (ptr alice 3) = alice \<and> location (ptr alice 0) = alice \<and>
   location (ptr bob 4) = bob \<and> location (ptr bob 1) = bob \<and>
   distinct (map id_at_location [ptr alice 3, ptr bob 4, ptr alice 0, ptr bob 1]) \<and>
   map opt_params [sgd (ptr alice 0), sgd (ptr bob 1)] = [ptr alice 0, ptr bob 1] \<and>
   (\<exists>loss w' o0' o1'.
      split_train (ptr alice 3) (ptr bob 4) [ptr alice 0, ptr bob 1]
        [sgd (ptr alice 0), sgd (ptr bob 1)] first_world = Inr (loss, w') \<and>
      segment_at w' (ptr alice 0) o0' \<and> holder o0' = alice \<and>
      segment_at w' (ptr bob 1) o1' \<and> holder o1' = bob)"
proof -
  have "\<exists>loss w' o0' o1'.
      split_train (ptr alice 3) (ptr bob 4) [ptr alice 0, ptr bob 1]
        [sgd (ptr alice 0), sgd (ptr bob 1)] first_world = Inr (loss, w') \<and>
      segment_at w' (ptr alice 0) o0' \<and> holder o0' = alice \<and>
      segment_at w' (ptr bob 1) o1' \<and> holder o1' = bob"
    using split_train_keeps_segments [OF first_world_facts]
    by (elim exE conjE) (intro exI conjI, assumption+)
  then show ?thesis
    using first_world_facts by simp
qed

subsection \<open>The training loop keeps the segments in place\<close>

text \<open>
  The hypotheses of the three claims above hold at every call of \<^verbatim>\<open>train\<close> that the
  training cell makes: after the send loop the segments are in place, every pass of the loop
  sends a batch to the two parties and leaves the segments in place, and all that crosses
  between the parties over an epoch are activations and their gradients, two transfers per
  batch.
\<close>

lemma in_place_D:
  assumes "in_place w models optimizers"
  obtains m0 m1 o0 o1 where "models = [m0, m1]" "map opt_params optimizers = [m0, m1]"
    "location m0 = alice" "location m1 = bob" "id_at_location m0 \<noteq> id_at_location m1"
    "segment_at w m0 o0" "segment_at w m1 o1"
  using assms
  by (auto simp: in_place_def split: list.splits option.splits)

lemma in_place_I:
  assumes "map opt_params optimizers = [m0, m1]"
    "location m0 = alice" "location m1 = bob" "id_at_location m0 \<noteq> id_at_location m1"
    "segment_at w m0 o0" "segment_at w m1 o1"
  shows "in_place w [m0, m1] optimizers"
  using assms by (auto simp: in_place_def segment_at_def tensor_at_def)

lemma train_on_batch_spec:
  assumes "in_place w models optimizers"
  shows "\<exists>loss w' act grd.
           train_on_batch models optimizers (images, labels) (running_loss, w)
             = Inr (running_loss @ [loss], w') \<and>
           in_place w' models optimizers \<and>
           crossing (transfers w') = crossing (transfers w) @ [act, grd] \<and>
           activation_or_gradient act \<and> activation_or_gradient grd"
proof -
  obtain m0 m1 o0 o1 where m: "models = [m0, m1]" and op: "map opt_params optimizers = [m0, m1]"
    and l: "location m0 = alice" "location m1 = bob"
    and d: "id_at_location m0 \<noteq> id_at_location m1"
    and s: "segment_at w m0 o0" "segment_at w m1 o1"
    using in_place_D [OF assms] .
  let ?n = "next_id w"
  let ?raw = "\<lparr>holder = alice, content = Float images, requires_grad = False, leaves = [],
               grad = None\<rparr>"
  let ?flat = "\<lparr>holder = alice, content = Flat (Float images), requires_grad = False, leaves = [],
                grad = None\<rparr>"
  let ?lab = "\<lparr>holder = bob, content = Long labels, requires_grad = False, leaves = [],
               grad = None\<rparr>"
  define w3 where "w3 = snd (send (Long labels) False bob
      (snd (projr (view_flat (fst (send (Float images) False alice w))
                     (snd (send (Float images) False alice w))))))"
  let ?w3 = w3
  let ?x = "\<lparr>location = alice, id_at_location = Suc ?n\<rparr>"
  let ?t = "\<lparr>location = bob, id_at_location = Suc (Suc ?n)\<rparr>"
  have unfold: "train_on_batch models optimizers (images, labels) (running_loss, w)
      = and_then (split_train ?x ?t models optimizers ?w3)
          (\<lambda>(loss, w4). Inr (running_loss @ [loss], w4))"
    by (simp add: w3_def train_on_batch_def send_def view_flat_def alloc_def record_call_def
        lookup_def Let_def)
  have w3: "next_id w3 = ?n + 3"
    "objects w3 (Suc ?n) = Some ?flat" "objects w3 (Suc (Suc ?n)) = Some ?lab"
    "\<And>i. i < ?n \<Longrightarrow> objects w3 i = objects w i"
    "transfers w3 = transfers w @ [(local_worker, alice, Float images),
                                   (local_worker, bob, Long labels)]"
    by (simp_all add: w3_def send_def view_flat_def alloc_def record_call_def lookup_def Let_def)
  have ids: "id_at_location m0 < ?n" "id_at_location m1 < ?n"
    using s by (simp_all add: segment_at_def tensor_at_def)
  have x: "data_at ?w3 ?x ?flat" and t: "data_at ?w3 ?t ?lab"
    using w3 by (simp_all add: data_at_def tensor_at_def)
  have s3: "segment_at ?w3 m0 o0" "segment_at ?w3 m1 o1"
    using s ids w3 by (simp_all add: segment_at_def tensor_at_def)
  have loc: "location ?x = location m0" "location ?t = location m1"
    using l by simp_all
  have dist: "distinct (map id_at_location [?x, ?t, m0, m1])"
    using ids d by auto
  obtain w' o0' o1' where
    r: "split_train ?x ?t [m0, m1] optimizers ?w3 = Inr (Detached (loss_of o0 o1 ?flat ?lab), w')"
    and tr: "transfers w' = transfers ?w3 @
            [(location m0, location m1, Detached (activation o0 ?flat)),
             (location m1, location m0, GradOf (loss_of o0 o1 ?flat ?lab) (Detached (activation o0 ?flat))),
             (location m1, local_worker, Detached (loss_of o0 o1 ?flat ?lab))]"
    and s': "segment_at w' m0 o0'" "segment_at w' m1 o1'"
    by (rule split_train_spec [OF x t s3 loc dist op]) (rule that)
  have res: "train_on_batch models optimizers (images, labels) (running_loss, w)
      = Inr (running_loss @ [Detached (loss_of o0 o1 ?flat ?lab)], w')"
    unfolding unfold using r m by simp
  have inp: "in_place w' models optimizers"
    unfolding m using op l d s' by (rule in_place_I)
  have cr: "crossing (transfers w') = crossing (transfers w) @
       [(alice, bob, Detached (activation o0 ?flat)),
        (bob, alice, GradOf (loss_of o0 o1 ?flat ?lab) (Detached (activation o0 ?flat)))]"
    unfolding tr w3(5) using l workers_distinct by (simp add: crossing_def)
  have ag: "activation_or_gradient (alice, bob, Detached (activation o0 ?flat))"
    "activation_or_gradient (bob, alice, GradOf (loss_of o0 o1 ?flat ?lab) (Detached (activation o0 ?flat)))"
    by (simp_all add: activation_def)
  show ?thesis
    using res inp cr ag by blast
qed

lemma train_epoch_spec:
  assumes "in_place w models optimizers"
  shows "\<exists>losses w' crossed.
           train_epoch models optimizers bs (running_loss, w) = Inr (running_loss @ losses, w') \<and>
           length losses = length bs \<and>
           in_place w' models optimizers \<and>
           crossing (transfers w') = crossing (transfers w) @ crossed \<and>
           list_all activation_or_gradient crossed \<and> length crossed = 2 * length bs"
  using assms
proof (induction bs arbitrary: running_loss w)
  case Nil
  then show ?case by simp
next
  case (Cons b bs)
  obtain images labels where b: "b = (images, labels)" by (cases b)
  obtain loss w1 act grd where
    one: "train_on_batch models optimizers (images, labels) (running_loss, w)
            = Inr (running_loss @ [loss], w1)"
    and p1: "in_place w1 models optimizers"
    and c1: "crossing (transfers w1) = crossing (transfers w) @ [act, grd]"
    and a1: "activation_or_gradient act" "activation_or_gradient grd"
    using train_on_batch_spec [OF Cons.prems] by blast
  obtain losses w' crossed where
    r: "train_epoch models optimizers bs (running_loss @ [loss], w1)
          = Inr ((running_loss @ [loss]) @ losses, w')"
    and n: "length losses = length bs"
    and p: "in_place w' models optimizers"
    and c: "crossing (transfers w') = crossing (transfers w1) @ crossed"
    and a: "list_all activation_or_gradient crossed" and k: "length crossed = 2 * length bs"
    using Cons.IH [OF p1] by blast
  have "train_epoch models optimizers (b # bs) (running_loss, w)
          = Inr (running_loss @ (loss # losses), w')"
    using one r b by simp
  moreover have "crossing (transfers w') = crossing (transfers w) @ (act # grd # crossed)"
    using c c1 by simp
  moreover have "list_all activation_or_gradient (act # grd # crossed)"
    using a a1 by simp
  moreover have "length (loss # losses) = length (b # bs)" using n by simp
  moreover have "length (act # grd # crossed) = 2 * length (b # bs)" using k by simp
  ultimately show ?case using p by blast
qed

lemma initial_setup_in_place:
  "in_place (snd (snd initial_setup)) (fst initial_setup) (fst (snd initial_setup))"
  by (simp add: initial_setup_eq in_place_def segment_at_def tensor_at_def ptr_def sgd_def
      bottom_segment_def top_segment_def workers_distinct)

lemma notebook_epoch:
  "\<exists>losses w' crossed.
     train_epoch (fst initial_setup) (fst (snd initial_setup)) bs ([], snd (snd initial_setup))
       = Inr (losses, w') \<and>
     length losses = length bs \<and>
     in_place w' (fst initial_setup) (fst (snd initial_setup)) \<and>
     crossing (transfers w') = crossed \<and>
     list_all activation_or_gradient crossed \<and> length crossed = 2 * length bs"
proof -
  have "crossing (transfers (snd (snd initial_setup))) = []"
    by (simp add: initial_setup_eq crossing_def)
  then show ?thesis
    using train_epoch_spec [OF initial_setup_in_place, of bs "[]"] by simp
qed

end
